theory Spec2Isabelle
  imports Main
begin

section \<open>Data model of GStore\<close>

text \<open>
  The declarations of \<open>ikey_t\<close>, \<open>iptr_t\<close>, \<open>vertex_t\<close>, \<open>edge_t\<close>, \<open>triple_t\<close> and
  \<open>dir_t\<close> (graph_basic_types.hpp) are not part of the sources at hand; their fields are
  taken from the way gstore uses them. Identifiers are natural numbers: the widths of the
  packed bit fields are not known, so no truncation is modelled. The encoding comment of
  the class fixes \<open>IN = 0\<close>, \<open>OUT = 1\<close>, \<open>PREDICATE_ID = 0\<close> and \<open>TYPE_ID = 1\<close>.
\<close>

datatype dir_t = IN | OUT

datatype ikey_t = Key (vid: nat) (dir: dir_t) (pid: nat)

datatype iptr_t = Ptr (ptr_size: nat) (ptr_off: nat)

datatype vertex_t = Vertex (key: ikey_t) (ptr: iptr_t)

datatype triple_t = Triple (t_s: nat) (t_p: nat) (t_o: nat)

text \<open>The default constructors \<open>ikey_t()\<close>, \<open>iptr_t()\<close> and \<open>vertex_t()\<close>.\<close>

definition ikey_empty :: ikey_t where
  "ikey_empty = Key 0 IN 0"

definition iptr_empty :: iptr_t where
  "iptr_empty = Ptr 0 0"

definition vertex_empty :: vertex_t where
  "vertex_empty = Vertex ikey_empty iptr_empty"

definition PREDICATE_ID :: nat where
  "PREDICATE_ID = 0"

definition TYPE_ID :: nat where
  "TYPE_ID = 1"

definition ASSOCIATIVITY :: nat where
  "ASSOCIATIVITY = 8"

definition MAIN_RATIO :: nat where
  "MAIN_RATIO = 80"

definition NUM_ITEMS :: nat where
  "NUM_ITEMS = 100000"

text \<open>
  The members of the class that never change after construction, together with the
  functions and globals the class takes from headers that are not at hand:
  \<open>ikey_t::hash\<close>, \<open>is_tpid\<close>, \<open>mymath::hash_mod\<close>, \<open>global_num_servers\<close> and
  \<open>global_enable_caching\<close>. They are parameters of the model.
\<close>

record config =
  num_slots :: nat
  num_buckets :: nat
  num_buckets_ext :: nat
  num_entries :: nat
  sid :: nat
  hash :: "ikey_t \<Rightarrow> nat"
  is_tpid :: "nat \<Rightarrow> bool"
  hash_mod :: "nat \<Rightarrow> nat \<Rightarrow> nat"
  global_num_servers :: nat
  global_enable_caching :: bool

text \<open>
  The mutable members: the slot array and the entry array (both views of the memory the
  transport hands out, modelled as functions from index to content), and the two bump
  counters.
\<close>

record gstore =
  vertices :: "nat \<Rightarrow> vertex_t"
  edges :: "nat \<Rightarrow> nat"
  last_ext :: nat
  last_entry :: nat

text \<open>
  Fatal assertions, accesses to the slot array at an index that is not below
  \<open>num_slots\<close>, loops that have not returned when the fuel is used up, and a remainder
  by \<open>num_buckets = 0\<close> are values.
\<close>

datatype error = AssertionFailed | OutOfBounds | OutOfFuel | DivisionByZero

section \<open>Construction and init\<close>

text \<open>
  The constructor sizes the table from \<open>global_num_keys_million\<close> and the size of the
  memory region; \<open>sz_vertex\<close> and \<open>sz_edge\<close> stand for \<open>sizeof(vertex_t)\<close> and
  \<open>sizeof(edge_t)\<close>. It asserts that the region is larger than the slot array. The other
  parameters of the model are passed through in \<open>ext\<close>.
\<close>

definition GStore_config ::
  "config \<Rightarrow> nat \<Rightarrow> nat \<Rightarrow> nat \<Rightarrow> nat \<Rightarrow> nat \<Rightarrow> error + config" where
  "GStore_config ext sid0 keys_million kvs_size sz_vertex sz_edge =
    (let ns = keys_million * 1000 * 1000;
         nb = (ns div ASSOCIATIVITY) * MAIN_RATIO div 100;
         nbe = (ns div ASSOCIATIVITY) - nb
     in if kvs_size \<le> ns * sz_vertex then Inl AssertionFailed
        else Inr (ext\<lparr>num_slots := ns, num_buckets := nb, num_buckets_ext := nbe,
                       num_entries := (kvs_size - ns * sz_vertex) div sz_edge,
                       sid := sid0\<rparr>))"

text \<open>
  The constructor assigns \<open>last_entry\<close> and nothing else of the mutable state: the
  memory region keeps its content \<open>mem_v\<close>, \<open>mem_e\<close>, and \<open>last_ext\<close> keeps the
  value \<open>ext0\<close> the object's storage held.
\<close>

definition GStore :: "(nat \<Rightarrow> vertex_t) \<Rightarrow> (nat \<Rightarrow> nat) \<Rightarrow> nat \<Rightarrow> gstore" where
  "GStore mem_v mem_e ext0 =
    \<lparr>vertices = mem_v, edges = mem_e, last_ext = ext0, last_entry = 0\<rparr>"

definition set_key :: "ikey_t \<Rightarrow> vertex_t \<Rightarrow> vertex_t" where
  "set_key k v = Vertex k (ptr v)"

definition set_ptr :: "iptr_t \<Rightarrow> vertex_t \<Rightarrow> vertex_t" where
  "set_ptr p v = Vertex (key v) p"

definition init :: "config \<Rightarrow> gstore \<Rightarrow> gstore" where
  "init cfg g =
    g\<lparr>vertices := (\<lambda>i. if i < num_slots cfg then set_key ikey_empty (vertices g i)
                          else vertices g i)\<rparr>"

section \<open>The cluster-chained hash table\<close>

text \<open>The slots the \<open>for\<close> loop of a bucket visits, starting at \<open>slot_id\<close>.\<close>

definition data_slots :: "nat \<Rightarrow> nat list" where
  "data_slots slot_id = map (\<lambda>i. slot_id + i) [0..<ASSOCIATIVITY - 1]"

datatype scan_result = Duplicate | Placed nat | Full

text \<open>
  The \<open>for\<close> loop of \<open>insert_key\<close>: a slot holding the key fails the assertion, the
  first empty slot takes the key.
\<close>

fun scan_slots :: "config \<Rightarrow> (nat \<Rightarrow> vertex_t) \<Rightarrow> ikey_t \<Rightarrow> nat list \<Rightarrow> error + scan_result" where
  "scan_slots cfg vs k [] = Inr Full"
| "scan_slots cfg vs k (j # js) =
    (if num_slots cfg \<le> j then Inl OutOfBounds
     else if key (vs j) = k then Inr Duplicate
     else if key (vs j) = ikey_empty then Inr (Placed j)
     else scan_slots cfg vs k js)"

text \<open>The label \<open>done\<close>: the two closing assertions and the return.\<close>

definition insert_done :: "config \<Rightarrow> ikey_t \<Rightarrow> nat \<Rightarrow> gstore \<Rightarrow> error + (nat \<times> gstore)" where
  "insert_done cfg k slot_id g =
    (if \<not> slot_id < num_slots cfg then Inl AssertionFailed
     else if key (vertices g slot_id) \<noteq> k then Inl AssertionFailed
     else Inr (slot_id, g))"

text \<open>
  The \<open>while\<close> loop of \<open>insert_key\<close>, one bucket per unit of fuel. After the \<open>for\<close>
  loop \<open>slot_id\<close> has been advanced \<open>ASSOCIATIVITY - 1\<close> times; the chain test then
  pre-increments it once more, so the slot it reads and writes is
  \<open>slot_id + ASSOCIATIVITY\<close> counted from the start of the bucket.
\<close>

fun insert_loop :: "config \<Rightarrow> ikey_t \<Rightarrow> nat \<Rightarrow> nat \<Rightarrow> gstore \<Rightarrow> error + (nat \<times> gstore)" where
  "insert_loop cfg k 0 slot_id g = Inl OutOfFuel"
| "insert_loop cfg k (Suc fuel) slot_id g =
    (if \<not> slot_id < num_slots cfg then insert_done cfg k slot_id g
     else case scan_slots cfg (vertices g) k (data_slots slot_id) of
       Inl e \<Rightarrow> Inl e
     | Inr Duplicate \<Rightarrow> Inl AssertionFailed
     | Inr (Placed j) \<Rightarrow>
         insert_done cfg k j (g\<lparr>vertices := (vertices g)(j := set_key k (vertices g j))\<rparr>)
     | Inr Full \<Rightarrow>
         (let c = slot_id + (ASSOCIATIVITY - 1) + 1 in
          if num_slots cfg \<le> c then Inl OutOfBounds
          else if key (vertices g c) \<noteq> ikey_empty
            then insert_loop cfg k fuel (vid (key (vertices g c)) * ASSOCIATIVITY) g
          else if \<not> last_ext g < num_buckets_ext cfg then Inl AssertionFailed
          else
            (let kc = key (vertices g c);
                 b = num_buckets cfg + last_ext g;
                 g1 = g\<lparr>vertices := (vertices g)(c := set_key (Key b (dir kc) (pid kc)) (vertices g c)),
                        last_ext := last_ext g + 1\<rparr>;
                 n = vid (key (vertices g1 c)) * ASSOCIATIVITY
             in if num_slots cfg \<le> n then Inl OutOfBounds
                else insert_done cfg k n
                       (g1\<lparr>vertices := (vertices g1)(n := set_key k (vertices g1 n))\<rparr>))))"

definition insert_key :: "config \<Rightarrow> nat \<Rightarrow> ikey_t \<Rightarrow> gstore \<Rightarrow> error + (nat \<times> gstore)" where
  "insert_key cfg fuel k g =
    (if num_buckets cfg = 0 then Inl DivisionByZero
     else insert_loop cfg k fuel ((hash cfg k mod num_buckets cfg) * ASSOCIATIVITY) g)"

definition sync_fetch_and_alloc_edges :: "config \<Rightarrow> nat \<Rightarrow> gstore \<Rightarrow> error + (nat \<times> gstore)" where
  "sync_fetch_and_alloc_edges cfg n g =
    (let g1 = g\<lparr>last_entry := last_entry g + n\<rparr>
     in if \<not> last_entry g1 < num_entries cfg then Inl AssertionFailed
        else Inr (last_entry g, g1))"

text \<open>
  The bucket walk of \<open>get_vertex_local\<close>: the data slots are compared with the key, the
  last slot of the bucket is the chain slot. One bucket per unit of fuel.
\<close>

fun find_key :: "config \<Rightarrow> (nat \<Rightarrow> vertex_t) \<Rightarrow> ikey_t \<Rightarrow> nat list \<Rightarrow> error + vertex_t option" where
  "find_key cfg vs k [] = Inr None"
| "find_key cfg vs k (j # js) =
    (if num_slots cfg \<le> j then Inl OutOfBounds
     else if key (vs j) = k then Inr (Some (vs j))
     else find_key cfg vs k js)"

fun walk_chain :: "config \<Rightarrow> (nat \<Rightarrow> vertex_t) \<Rightarrow> ikey_t \<Rightarrow> nat \<Rightarrow> nat \<Rightarrow> error + vertex_t" where
  "walk_chain cfg vs k 0 bucket_id = Inl OutOfFuel"
| "walk_chain cfg vs k (Suc fuel) bucket_id =
    (case find_key cfg vs k (data_slots (bucket_id * ASSOCIATIVITY)) of
       Inl e \<Rightarrow> Inl e
     | Inr (Some v) \<Rightarrow> Inr v
     | Inr None \<Rightarrow>
         (let c = bucket_id * ASSOCIATIVITY + (ASSOCIATIVITY - 1) in
          if num_slots cfg \<le> c then Inl OutOfBounds
          else if key (vs c) \<noteq> ikey_empty then walk_chain cfg vs k fuel (vid (key (vs c)))
          else Inr vertex_empty))"

definition get_vertex_local :: "config \<Rightarrow> nat \<Rightarrow> gstore \<Rightarrow> ikey_t \<Rightarrow> error + vertex_t" where
  "get_vertex_local cfg fuel g k =
    (if num_buckets cfg = 0 then Inl DivisionByZero
     else walk_chain cfg (vertices g) k fuel (hash cfg k mod num_buckets cfg))"

text \<open>
  The \<open>edge_t *\<close> a lookup returns: the null pointer, the address \<open>&edges[off]\<close> in
  the local entry array, or the scratch buffer of the calling thread with the content the
  remote read put there.
\<close>

datatype edge_ptr = NULL | EdgesAt nat | Buffer "nat list"

definition get_edges_local ::
  "config \<Rightarrow> nat \<Rightarrow> gstore \<Rightarrow> nat \<Rightarrow> dir_t \<Rightarrow> nat \<Rightarrow> error + (nat \<times> edge_ptr)" where
  "get_edges_local cfg fuel g v d p =
    (case get_vertex_local cfg fuel g (Key v d p) of
       Inl e \<Rightarrow> Inl e
     | Inr x \<Rightarrow> if key x = ikey_empty then Inr (0, NULL)
               else Inr (ptr_size (ptr x), EdgesAt (ptr_off (ptr x))))"

definition get_index_edges_local ::
  "config \<Rightarrow> nat \<Rightarrow> gstore \<Rightarrow> nat \<Rightarrow> dir_t \<Rightarrow> error + (nat \<times> edge_ptr)" where
  "get_index_edges_local cfg fuel g p d = get_edges_local cfg fuel g 0 d p"

text \<open>The values a returned size and pointer denote, read in the store \<open>g\<close>.\<close>

fun edge_slice :: "gstore \<Rightarrow> nat \<times> edge_ptr \<Rightarrow> nat list" where
  "edge_slice g (n, NULL) = []"
| "edge_slice g (n, EdgesAt off) = map (edges g) [off..<off + n]"
| "edge_slice g (n, Buffer xs) = take n xs"

section \<open>Remote reads\<close>

text \<open>
  The transport is a reader of the memory of the server \<open>dst_sid\<close>: \<open>cluster dst_sid\<close>
  is that server's store. A bucket read delivers the slots of the bucket; the walk then
  looks at them exactly as the local walk does, and reports whether a data slot matched
  (\<open>Some\<close>) or the chain ended (\<open>None\<close>).
\<close>

fun walk_remote :: "config \<Rightarrow> (nat \<Rightarrow> vertex_t) \<Rightarrow> ikey_t \<Rightarrow> nat \<Rightarrow> nat \<Rightarrow> error + vertex_t option" where
  "walk_remote cfg rvs k 0 bucket_id = Inl OutOfFuel"
| "walk_remote cfg rvs k (Suc fuel) bucket_id =
    (case find_key cfg rvs k (data_slots (bucket_id * ASSOCIATIVITY)) of
       Inl e \<Rightarrow> Inl e
     | Inr (Some v) \<Rightarrow> Inr (Some v)
     | Inr None \<Rightarrow>
         (let c = bucket_id * ASSOCIATIVITY + (ASSOCIATIVITY - 1) in
          if num_slots cfg \<le> c then Inl OutOfBounds
          else if key (rvs c) \<noteq> ikey_empty then walk_remote cfg rvs k fuel (vid (key (rvs c)))
          else Inr None))"

text \<open>The direct-mapped cache \<open>RDMA_Cache\<close>: item \<open>idx\<close> holds one vertex record.\<close>

definition cache_lookup :: "config \<Rightarrow> (nat \<Rightarrow> vertex_t) \<Rightarrow> ikey_t \<Rightarrow> vertex_t option" where
  "cache_lookup cfg items k =
    (if \<not> global_enable_caching cfg then None
     else let idx = hash cfg k mod NUM_ITEMS
          in if key (items idx) = k then Some (items idx) else None)"

definition cache_insert :: "config \<Rightarrow> (nat \<Rightarrow> vertex_t) \<Rightarrow> vertex_t \<Rightarrow> (nat \<Rightarrow> vertex_t)" where
  "cache_insert cfg items v =
    (if \<not> global_enable_caching cfg then items
     else items(hash cfg (key v) mod NUM_ITEMS := v))"

text \<open>The cache of a freshly constructed store: every item holds \<open>vertex_t()\<close>.\<close>

definition cache_init :: "nat \<Rightarrow> vertex_t" where
  "cache_init = (\<lambda>_. vertex_empty)"

definition get_vertex_remote ::
  "config \<Rightarrow> nat \<Rightarrow> (nat \<Rightarrow> gstore) \<Rightarrow> (nat \<Rightarrow> vertex_t) \<Rightarrow> ikey_t
     \<Rightarrow> error + (vertex_t \<times> (nat \<Rightarrow> vertex_t))" where
  "get_vertex_remote cfg fuel cluster items k =
    (let dst_sid = hash_mod cfg (vid k) (global_num_servers cfg);
         bucket_id = hash cfg k mod num_buckets cfg
     in if num_buckets cfg = 0 then Inl DivisionByZero
        else case cache_lookup cfg items k of
          Some v \<Rightarrow> Inr (v, items)
        | None \<Rightarrow>
            (case walk_remote cfg (vertices (cluster dst_sid)) k fuel bucket_id of
               Inl e \<Rightarrow> Inl e
             | Inr (Some v) \<Rightarrow> Inr (v, cache_insert cfg items v)
             | Inr None \<Rightarrow> Inr (vertex_empty, items)))"

definition get_edges_remote ::
  "config \<Rightarrow> nat \<Rightarrow> (nat \<Rightarrow> gstore) \<Rightarrow> (nat \<Rightarrow> vertex_t) \<Rightarrow> nat \<Rightarrow> dir_t \<Rightarrow> nat
     \<Rightarrow> error + ((nat \<times> edge_ptr) \<times> (nat \<Rightarrow> vertex_t))" where
  "get_edges_remote cfg fuel cluster items v d p =
    (let dst_sid = hash_mod cfg v (global_num_servers cfg)
     in case get_vertex_remote cfg fuel cluster items (Key v d p) of
          Inl e \<Rightarrow> Inl e
        | Inr (x, items') \<Rightarrow>
            if key x = ikey_empty then Inr ((0, NULL), items')
            else Inr ((ptr_size (ptr x),
                       Buffer (map (edges (cluster dst_sid))
                                 [ptr_off (ptr x)..<ptr_off (ptr x) + ptr_size (ptr x)])),
                      items'))"

definition get_edges_global ::
  "config \<Rightarrow> nat \<Rightarrow> (nat \<Rightarrow> gstore) \<Rightarrow> (nat \<Rightarrow> vertex_t) \<Rightarrow> nat \<Rightarrow> dir_t \<Rightarrow> nat
     \<Rightarrow> error + ((nat \<times> edge_ptr) \<times> (nat \<Rightarrow> vertex_t))" where
  "get_edges_global cfg fuel cluster items v d p =
    (if hash_mod cfg v (global_num_servers cfg) = sid cfg
     then (case get_edges_local cfg fuel (cluster (sid cfg)) v d p of
             Inl e \<Rightarrow> Inl e | Inr r \<Rightarrow> Inr (r, items))
     else get_edges_remote cfg fuel cluster items v d p)"

section \<open>Bulk load: normal triples\<close>

fun write_edges :: "nat \<Rightarrow> nat list \<Rightarrow> (nat \<Rightarrow> nat) \<Rightarrow> (nat \<Rightarrow> nat)" where
  "write_edges off [] es = es"
| "write_edges off (x # xs) es = write_edges (off + 1) xs (es(off := x))"

text \<open>
  The two grouping loops of \<open>insert_normal\<close> have the same text up to the roles of
  subject and object: for \<open>OUT\<close> the key vertex is the subject and the value the object,
  for \<open>IN\<close> the other way round. A run is the first triple and the triples after it that
  agree with the first one on key vertex and predicate.
\<close>

definition run_vid :: "dir_t \<Rightarrow> triple_t \<Rightarrow> nat" where
  "run_vid d t = (case d of OUT \<Rightarrow> t_s t | IN \<Rightarrow> t_o t)"

definition run_val :: "dir_t \<Rightarrow> triple_t \<Rightarrow> nat" where
  "run_val d t = (case d of OUT \<Rightarrow> t_o t | IN \<Rightarrow> t_s t)"

definition same_run :: "dir_t \<Rightarrow> triple_t \<Rightarrow> triple_t \<Rightarrow> bool" where
  "same_run d t u \<longleftrightarrow> run_vid d t = run_vid d u \<and> t_p t = t_p u"

definition store_list ::
  "nat \<Rightarrow> nat \<Rightarrow> nat list \<Rightarrow> gstore \<Rightarrow> gstore" where
  "store_list slot_id off vals g =
    g\<lparr>vertices := (vertices g)(slot_id := set_ptr (Ptr (length vals) off) (vertices g slot_id)),
      edges := write_edges off vals (edges g)\<rparr>"

function insert_runs ::
  "config \<Rightarrow> nat \<Rightarrow> dir_t \<Rightarrow> triple_t list \<Rightarrow> nat \<Rightarrow> gstore \<Rightarrow> error + (nat \<times> gstore)" where
  "insert_runs cfg fuel d [] off g = Inr (off, g)"
| "insert_runs cfg fuel d (t # ts) off g =
    (let run = t # takeWhile (same_run d t) ts
     in case insert_key cfg fuel (Key (run_vid d t) d (t_p t)) g of
          Inl e \<Rightarrow> Inl e
        | Inr (slot_id, g1) \<Rightarrow>
            insert_runs cfg fuel d (dropWhile (same_run d t) ts) (off + length run)
              (store_list slot_id off (map (run_val d) run) g1))"
  by pat_completeness auto
termination
  by (relation "measure (\<lambda>(cfg, fuel, d, ts, off, g). length ts)")
     (auto simp: le_imp_less_Suc length_dropWhile_le)

definition insert_normal ::
  "config \<Rightarrow> nat \<Rightarrow> triple_t list \<Rightarrow> triple_t list \<Rightarrow> gstore \<Rightarrow> error + gstore" where
  "insert_normal cfg fuel spo ops g =
    (let type_triples = length (takeWhile (\<lambda>t. is_tpid cfg (t_o t)) ops)
     in case sync_fetch_and_alloc_edges cfg (length spo + length ops - type_triples) g of
          Inl e \<Rightarrow> Inl e
        | Inr (off, g1) \<Rightarrow>
            (case insert_runs cfg fuel OUT spo off g1 of
               Inl e \<Rightarrow> Inl e
             | Inr (off1, g2) \<Rightarrow>
                 (case insert_runs cfg fuel IN (drop type_triples ops) off1 g2 of
                    Inl e \<Rightarrow> Inl e
                  | Inr (off2, g3) \<Rightarrow> Inr g3)))"

section \<open>Bulk load: index\<close>

text \<open>
  The three concurrent hash maps are association lists in the order in which their keys
  were first inserted; \<open>map_push\<close> is \<open>map.insert(a, k); a->second.push_back(v)\<close>. The
  scan is taken in bucket order, one of the schedules of the parallel loop.
\<close>

record index_maps =
  tidx_map :: "(nat \<times> nat list) list"
  pidx_in_map :: "(nat \<times> nat list) list"
  pidx_out_map :: "(nat \<times> nat list) list"

fun map_push :: "nat \<Rightarrow> nat \<Rightarrow> (nat \<times> nat list) list \<Rightarrow> (nat \<times> nat list) list" where
  "map_push k v [] = [(k, [v])]"
| "map_push k v ((k', vs) # m) =
    (if k = k' then (k', vs @ [v]) # m else (k', vs) # map_push k v m)"

definition scan_slot :: "config \<Rightarrow> gstore \<Rightarrow> nat \<Rightarrow> index_maps \<Rightarrow> error + index_maps" where
  "scan_slot cfg g slot_id m =
    (if num_slots cfg \<le> slot_id then Inl OutOfBounds
     else if key (vertices g slot_id) = ikey_empty then Inr m
     else
       (let v = vid (key (vertices g slot_id));
            p = pid (key (vertices g slot_id));
            d = dir (key (vertices g slot_id));
            sz = ptr_size (ptr (vertices g slot_id));
            off = ptr_off (ptr (vertices g slot_id))
        in if d = IN then
             (if p = PREDICATE_ID then Inr m
              else if p = TYPE_ID then Inl AssertionFailed
              else Inr (m\<lparr>pidx_out_map := map_push p v (pidx_out_map m)\<rparr>))
           else
             (if p = PREDICATE_ID then Inr m
              else if p = TYPE_ID then
                Inr (m\<lparr>tidx_map := foldl (\<lambda>t e. map_push (edges g (off + e)) v t)
                                       (tidx_map m) [0..<sz]\<rparr>)
              else Inr (m\<lparr>pidx_in_map := map_push p v (pidx_in_map m)\<rparr>))))"

fun scan_all :: "config \<Rightarrow> gstore \<Rightarrow> nat list \<Rightarrow> index_maps \<Rightarrow> error + index_maps" where
  "scan_all cfg g [] m = Inr m"
| "scan_all cfg g (j # js) m =
    (case scan_slot cfg g j m of Inl e \<Rightarrow> Inl e | Inr m' \<Rightarrow> scan_all cfg g js m')"

definition all_data_slots :: "config \<Rightarrow> nat list" where
  "all_data_slots cfg =
    concat (map (\<lambda>bucket_id. data_slots (bucket_id * ASSOCIATIVITY))
              [0..<num_buckets cfg + num_buckets_ext cfg])"

fun insert_index_map ::
  "config \<Rightarrow> nat \<Rightarrow> dir_t \<Rightarrow> (nat \<times> nat list) list \<Rightarrow> gstore \<Rightarrow> error + gstore" where
  "insert_index_map cfg fuel d [] g = Inr g"
| "insert_index_map cfg fuel d ((i, vs) # m) g =
    (case sync_fetch_and_alloc_edges cfg (length vs) g of
       Inl e \<Rightarrow> Inl e
     | Inr (off, g1) \<Rightarrow>
         (case insert_key cfg fuel (Key 0 d i) g1 of
            Inl e \<Rightarrow> Inl e
          | Inr (slot_id, g2) \<Rightarrow> insert_index_map cfg fuel d m (store_list slot_id off vs g2)))"

definition index_maps_empty :: index_maps where
  "index_maps_empty = \<lparr>tidx_map = [], pidx_in_map = [], pidx_out_map = []\<rparr>"

definition insert_index :: "config \<Rightarrow> nat \<Rightarrow> gstore \<Rightarrow> error + gstore" where
  "insert_index cfg fuel g =
    (case scan_all cfg g (all_data_slots cfg) index_maps_empty of
       Inl e \<Rightarrow> Inl e
     | Inr m \<Rightarrow>
         (case insert_index_map cfg fuel IN (tidx_map m) g of
            Inl e \<Rightarrow> Inl e
          | Inr g1 \<Rightarrow>
              (case insert_index_map cfg fuel IN (pidx_in_map m) g1 of
                 Inl e \<Rightarrow> Inl e
               | Inr g2 \<Rightarrow> insert_index_map cfg fuel OUT (pidx_out_map m) g2)))"

section \<open>Example stores\<close>

text \<open>
  A store of one million slots as the constructor sizes it: 100000 primary buckets and
  25000 overflow buckets of 8 slots. The hash of a key is its vertex id, type and
  predicate ids are the ids below \<open>2^17\<close>.
\<close>

definition ex_ext :: config where
  "ex_ext = \<lparr>num_slots = 0, num_buckets = 0, num_buckets_ext = 0, num_entries = 0, sid = 0,
     hash = vid, is_tpid = (\<lambda>x. x < 131072), hash_mod = (\<lambda>v n. v mod n),
     global_num_servers = 1, global_enable_caching = False\<rparr>"

definition ex_cfg :: config where
  "ex_cfg = ex_ext\<lparr>num_slots := 1000000, num_buckets := 100000, num_buckets_ext := 25000,
                    num_entries := 2000000\<rparr>"

definition ex_g0 :: gstore where
  "ex_g0 = init ex_cfg (GStore (\<lambda>_. vertex_empty) (\<lambda>_. 0) 0)"

text \<open>A sequence of calls of \<open>insert_key\<close>, stopping at the first failure.\<close>

fun insert_keys :: "config \<Rightarrow> nat \<Rightarrow> ikey_t list \<Rightarrow> gstore \<Rightarrow> error + gstore" where
  "insert_keys cfg fuel [] g = Inr g"
| "insert_keys cfg fuel (k # ks) g =
    (case insert_key cfg fuel k g of
       Inl e \<Rightarrow> Inl e
     | Inr (slot_id, g1) \<Rightarrow> insert_keys cfg fuel ks g1)"

text \<open>Seven keys whose hash is bucket 0, and the store that holds them.\<close>

definition ex_keys7 :: "ikey_t list" where
  "ex_keys7 = [Key 200000 OUT 5, Key 300000 OUT 5, Key 400000 OUT 5, Key 500000 OUT 5,
               Key 600000 OUT 5, Key 700000 OUT 5, Key 800000 OUT 5]"

definition ex_g7 :: gstore where
  "ex_g7 = ex_g0\<lparr>vertices := (vertices ex_g0)
      (0 := Vertex (Key 200000 OUT 5) iptr_empty, 1 := Vertex (Key 300000 OUT 5) iptr_empty,
       2 := Vertex (Key 400000 OUT 5) iptr_empty, 3 := Vertex (Key 500000 OUT 5) iptr_empty,
       4 := Vertex (Key 600000 OUT 5) iptr_empty, 5 := Vertex (Key 700000 OUT 5) iptr_empty,
       6 := Vertex (Key 800000 OUT 5) iptr_empty)\<rparr>"

definition ex_g8 :: gstore where
  "ex_g8 = ex_g7\<lparr>vertices := (vertices ex_g7)
      (8 := Vertex (Key 100000 IN 0) iptr_empty, 800000 := Vertex (Key 900000 OUT 5) iptr_empty),
      last_ext := 1\<rparr>"

text \<open>
  Two small stores with the source's associativity: two primary buckets with one overflow
  bucket, and two primary buckets with none. Keys with an even vertex id hash to bucket 0.
\<close>

definition tiny_cfg :: config where
  "tiny_cfg = ex_ext\<lparr>num_slots := 24, num_buckets := 2, num_buckets_ext := 1, num_entries := 100\<rparr>"

definition tiny_g0 :: gstore where
  "tiny_g0 = init tiny_cfg (GStore (\<lambda>_. vertex_empty) (\<lambda>_. 0) 0)"

definition tiny_keys7 :: "ikey_t list" where
  "tiny_keys7 = [Key 131072 OUT 5, Key 131074 OUT 5, Key 131076 OUT 5, Key 131078 OUT 5,
                 Key 131080 OUT 5, Key 131082 OUT 5, Key 131084 OUT 5]"

definition full_cfg :: config where
  "full_cfg = tiny_cfg\<lparr>num_slots := 16, num_buckets_ext := 0\<rparr>"

definition full_g0 :: gstore where
  "full_g0 = init full_cfg (GStore (\<lambda>_. vertex_empty) (\<lambda>_. 0) 0)"

text \<open>
  Two servers with the cache switched on. Server 0 owns the even vertex ids and holds the
  triple \<open>(2, 9, 4)\<close>, server 1 holds \<open>(3, 9, 5)\<close>.
\<close>

definition two_cfg :: config where
  "two_cfg = ex_cfg\<lparr>sid := 1, global_num_servers := 2, global_enable_caching := True\<rparr>"

definition ex_server0 :: gstore where
  "ex_server0 = \<lparr>vertices = (\<lambda>_. vertex_empty)
       (16 := Vertex (Key 2 OUT 9) (Ptr 1 0), 32 := Vertex (Key 4 IN 9) (Ptr 1 1)),
     edges = (\<lambda>_. 0)(0 := 4, 1 := 2), last_ext = 0, last_entry = 2\<rparr>"

definition ex_server1 :: gstore where
  "ex_server1 = \<lparr>vertices = (\<lambda>_. vertex_empty)
       (24 := Vertex (Key 3 OUT 9) (Ptr 1 0), 40 := Vertex (Key 5 IN 9) (Ptr 1 1)),
     edges = (\<lambda>_. 0)(0 := 5, 1 := 3), last_ext = 0, last_entry = 2\<rparr>"

definition ex_cluster :: "nat \<Rightarrow> gstore" where
  "ex_cluster s = (if s = 0 then ex_server0 else ex_server1)"

text \<open>
  A lookup in the store an operation returned: the size with the pointer, and the size
  with the values the pointer denotes.
\<close>

definition lookup_ptr ::
  "config \<Rightarrow> nat \<Rightarrow> error + gstore \<Rightarrow> nat \<Rightarrow> dir_t \<Rightarrow> nat \<Rightarrow> error + (nat \<times> edge_ptr)" where
  "lookup_ptr cfg fuel r v d p =
    (case r of Inl e \<Rightarrow> Inl e | Inr g \<Rightarrow> get_edges_local cfg fuel g v d p)"

definition lookup_result ::
  "config \<Rightarrow> nat \<Rightarrow> error + gstore \<Rightarrow> nat \<Rightarrow> dir_t \<Rightarrow> nat \<Rightarrow> error + (nat \<times> nat list)" where
  "lookup_result cfg fuel r v d p =
    (case r of
       Inl e \<Rightarrow> Inl e
     | Inr g \<Rightarrow>
         (case get_edges_local cfg fuel g v d p of
            Inl e \<Rightarrow> Inl e
          | Inr x \<Rightarrow> Inr (fst x, edge_slice g x)))"

text \<open>
  Eight triples with eight subjects whose keys hash to bucket 0 and one object; the list
  is sorted by \<open>(s, p, o)\<close> and by \<open>(o, p, s)\<close>.
\<close>

definition ex_spo8 :: "triple_t list" where
  "ex_spo8 = [Triple 200000 5 131073, Triple 300000 5 131073, Triple 400000 5 131073,
              Triple 500000 5 131073, Triple 600000 5 131073, Triple 700000 5 131073,
              Triple 800000 5 131073, Triple 900000 5 131073]"

text \<open>
  A store over memory that held other data before: \<open>init\<close> resets the keys and leaves
  the pointer records. Sixteen keys, eight with hash bucket 5 and eight with hash bucket 0.
\<close>

definition stale_g0 :: gstore where
  "stale_g0 = init ex_cfg (GStore (\<lambda>_. Vertex (Key 7 OUT 7) (Ptr 3 0)) (\<lambda>_. 0) 0)"

definition ex_keys16 :: "ikey_t list" where
  "ex_keys16 = [Key 200005 OUT 5, Key 300005 OUT 5, Key 400005 OUT 5, Key 500005 OUT 5,
                Key 600005 OUT 5, Key 700005 OUT 5, Key 800005 OUT 5, Key 900005 OUT 5] @
               ex_keys7 @ [Key 900000 OUT 5]"

section \<open>Build steps and reachable stores\<close>

text \<open>
  The sizes of a store are consistent when there is a primary bucket and the buckets fit
  into the slot array; the constructor establishes this for a positive number of keys.
\<close>

definition config_ok :: "config \<Rightarrow> bool" where
  "config_ok cfg \<longleftrightarrow>
     0 < num_buckets cfg \<and>
     (num_buckets cfg + num_buckets_ext cfg) * ASSOCIATIVITY \<le> num_slots cfg"

text \<open>
  The mutations the build is made of: a call of \<open>insert_key\<close>, a call of the entry
  allocator, and the write of a pointer record with its adjacency list into a slot that
  \<open>insert_key\<close> returned. The stores of the build are those reached from a constructed
  and initialised store by these steps.
\<close>

inductive build_step :: "config \<Rightarrow> gstore \<Rightarrow> gstore \<Rightarrow> bool" for cfg where
  step_insert_key: "insert_key cfg fuel k g = Inr (slot_id, g') \<Longrightarrow> build_step cfg g g'"
| step_alloc: "sync_fetch_and_alloc_edges cfg n g = Inr (off, g') \<Longrightarrow> build_step cfg g g'"
| step_store: "slot_id < num_slots cfg \<Longrightarrow> build_step cfg g (store_list slot_id off vals g)"

inductive reachable :: "config \<Rightarrow> gstore \<Rightarrow> bool" for cfg where
  reach_init: "reachable cfg (init cfg (GStore mem_v mem_e ext0))"
| reach_step: "reachable cfg g \<Longrightarrow> build_step cfg g g' \<Longrightarrow> reachable cfg g'"

text \<open>
  What a successful call of \<open>insert_key\<close> does to the store: nothing (the key was
  met where the loop was left), the key in one empty slot that is not a chain slot, or a
  new bucket id in an empty first slot of a bucket together with the key in the first slot
  of the new bucket.
\<close>

definition insert_effect :: "config \<Rightarrow> ikey_t \<Rightarrow> gstore \<Rightarrow> gstore \<Rightarrow> bool" where
  "insert_effect cfg k g g' \<longleftrightarrow>
     g' = g \<or>
     (\<exists>j. j mod ASSOCIATIVITY \<noteq> ASSOCIATIVITY - 1 \<and> j < num_slots cfg \<and>
          key (vertices g j) = ikey_empty \<and> k \<noteq> ikey_empty \<and>
          g' = g\<lparr>vertices := (vertices g)(j := set_key k (vertices g j))\<rparr>) \<or>
     (\<exists>c. c mod ASSOCIATIVITY = 0 \<and> key (vertices g c) = ikey_empty \<and>
          last_ext g < num_buckets_ext cfg \<and>
          g' = g\<lparr>vertices := ((vertices g)
                     (c := set_key (Key (num_buckets cfg + last_ext g) IN 0) (vertices g c)))
                     ((num_buckets cfg + last_ext g) * ASSOCIATIVITY :=
                        set_key k (((vertices g)
                          (c := set_key (Key (num_buckets cfg + last_ext g) IN 0) (vertices g c)))
                          ((num_buckets cfg + last_ext g) * ASSOCIATIVITY))),
                 last_ext := last_ext g + 1\<rparr>)"

text \<open>No chain slot of the slot array holds a key.\<close>

definition chain_free :: "config \<Rightarrow> gstore \<Rightarrow> bool" where
  "chain_free cfg g \<longleftrightarrow>
     (\<forall>i < num_slots cfg. i mod ASSOCIATIVITY = ASSOCIATIVITY - 1 \<longrightarrow> key (vertices g i) = ikey_empty)"

section \<open>Caches of the remote reader\<close>

text \<open>
  The caches a reader can hold over a cluster whose stores no longer change: the cache of
  a new store, and the cache left by a remote vertex lookup.
\<close>

inductive cache_reachable :: "config \<Rightarrow> (nat \<Rightarrow> gstore) \<Rightarrow> (nat \<Rightarrow> vertex_t) \<Rightarrow> bool"
  for cfg cluster where
  cache_fresh: "cache_reachable cfg cluster cache_init"
| cache_used: "cache_reachable cfg cluster items \<Longrightarrow>
     get_vertex_remote cfg fuel cluster items k = Inr (v, items') \<Longrightarrow>
     cache_reachable cfg cluster items'"

text \<open>
  Every item of the cache is \<open>vertex_t()\<close> or a vertex that the walk over the store of
  the owner of its key returns for that key.
\<close>

definition cache_ok :: "config \<Rightarrow> (nat \<Rightarrow> gstore) \<Rightarrow> (nat \<Rightarrow> vertex_t) \<Rightarrow> bool" where
  "cache_ok cfg cluster items \<longleftrightarrow>
     (\<forall>idx. items idx = vertex_empty \<or>
        (\<exists>fuel. walk_remote cfg
            (vertices (cluster (hash_mod cfg (vid (key (items idx))) (global_num_servers cfg))))
            (key (items idx)) fuel (hash cfg (key (items idx)) mod num_buckets cfg)
          = Inr (Some (items idx))))"

text \<open>What the local walk returns where the remote walk reports a match or none.\<close>

definition found_or_empty :: "vertex_t option \<Rightarrow> vertex_t" where
  "found_or_empty r = (case r of None \<Rightarrow> vertex_empty | Some v \<Rightarrow> v)"

section \<open>Evaluation lemmas\<close>

lemma ex_cfg_ctor: "GStore_config ex_ext 0 1 32000000 16 8 = Inr ex_cfg"
  by (simp add: GStore_config_def ex_cfg_def ex_ext_def ASSOCIATIVITY_def MAIN_RATIO_def Let_def)

lemma data_slots_eval: "data_slots n = [n, n+1, n+2, n+3, n+4, n+5, n+6]"
  by (simp add: data_slots_def ASSOCIATIVITY_def upt_rec)

lemma ex_g0_eq:
  "ex_g0 = \<lparr>vertices = (\<lambda>_. vertex_empty), edges = (\<lambda>_. 0), last_ext = 0, last_entry = 0\<rparr>"
  by (simp add: ex_g0_def init_def GStore_def set_key_def vertex_empty_def fun_eq_iff)

lemma ex_cfg_simps:
  "num_slots ex_cfg = 1000000" "num_buckets ex_cfg = 100000"
  "num_buckets_ext ex_cfg = 25000" "num_entries ex_cfg = 2000000" "hash ex_cfg = vid"
  "is_tpid ex_cfg = (\<lambda>x. x < 131072)"
  by (simp_all add: ex_cfg_def ex_ext_def)

lemma insert_loop_numeral:
  "insert_loop cfg k (numeral n) slot_id g =
    (if \<not> slot_id < num_slots cfg then insert_done cfg k slot_id g
     else case scan_slots cfg (vertices g) k (data_slots slot_id) of
       Inl e \<Rightarrow> Inl e
     | Inr Duplicate \<Rightarrow> Inl AssertionFailed
     | Inr (Placed j) \<Rightarrow>
         insert_done cfg k j (g\<lparr>vertices := (vertices g)(j := set_key k (vertices g j))\<rparr>)
     | Inr Full \<Rightarrow>
         (let c = slot_id + (ASSOCIATIVITY - 1) + 1 in
          if num_slots cfg \<le> c then Inl OutOfBounds
          else if key (vertices g c) \<noteq> ikey_empty
            then insert_loop cfg k (pred_numeral n) (vid (key (vertices g c)) * ASSOCIATIVITY) g
          else if \<not> last_ext g < num_buckets_ext cfg then Inl AssertionFailed
          else
            (let kc = key (vertices g c);
                 b = num_buckets cfg + last_ext g;
                 g1 = g\<lparr>vertices := (vertices g)(c := set_key (Key b (dir kc) (pid kc)) (vertices g c)),
                        last_ext := last_ext g + 1\<rparr>;
                 n = vid (key (vertices g1 c)) * ASSOCIATIVITY
             in if num_slots cfg \<le> n then Inl OutOfBounds
                else insert_done cfg k n
                       (g1\<lparr>vertices := (vertices g1)(n := set_key k (vertices g1 n))\<rparr>))))"
  by (simp add: numeral_eq_Suc)

lemma walk_chain_numeral:
  "walk_chain cfg vs k (numeral n) bucket_id =
    (case find_key cfg vs k (data_slots (bucket_id * ASSOCIATIVITY)) of
       Inl e \<Rightarrow> Inl e
     | Inr (Some v) \<Rightarrow> Inr v
     | Inr None \<Rightarrow>
         (let c = bucket_id * ASSOCIATIVITY + (ASSOCIATIVITY - 1) in
          if num_slots cfg \<le> c then Inl OutOfBounds
          else if key (vs c) \<noteq> ikey_empty then walk_chain cfg vs k (pred_numeral n) (vid (key (vs c)))
          else Inr vertex_empty))"
  by (simp add: numeral_eq_Suc)

lemmas ex_eval = insert_key_def get_vertex_local_def ex_cfg_simps data_slots_eval
  vertex_empty_def ikey_empty_def insert_done_def set_key_def ASSOCIATIVITY_def Let_def
  insert_loop_numeral walk_chain_numeral

lemma ex_g7_reached:
  "case insert_keys ex_cfg 2 ex_keys7 ex_g0 of
     Inl e \<Rightarrow> False
   | Inr g \<Rightarrow> last_ext g = last_ext ex_g7 \<and> last_entry g = last_entry ex_g7 \<and>
             edges g = edges ex_g7 \<and> (\<forall>i. vertices g i = vertices ex_g7 i)"
  by (simp add: ex_keys7_def ex_g7_def ex_g0_eq ex_eval)

lemma tiny_cfg_simps:
  "num_slots tiny_cfg = 24" "num_buckets tiny_cfg = 2"
  "num_buckets_ext tiny_cfg = 1" "num_entries tiny_cfg = 100" "hash tiny_cfg = vid"
  by (simp_all add: tiny_cfg_def ex_ext_def)

lemma full_cfg_simps:
  "num_slots full_cfg = 16" "num_buckets full_cfg = 2"
  "num_buckets_ext full_cfg = 0" "num_entries full_cfg = 100" "hash full_cfg = vid"
  by (simp_all add: full_cfg_def tiny_cfg_def ex_ext_def)

lemma tiny_g0_eq:
  "tiny_g0 = \<lparr>vertices = (\<lambda>_. vertex_empty), edges = (\<lambda>_. 0), last_ext = 0, last_entry = 0\<rparr>"
  by (simp add: tiny_g0_def init_def GStore_def set_key_def vertex_empty_def fun_eq_iff)

lemma full_g0_eq:
  "full_g0 = \<lparr>vertices = (\<lambda>_. vertex_empty), edges = (\<lambda>_. 0), last_ext = 0, last_entry = 0\<rparr>"
  by (simp add: full_g0_def init_def GStore_def set_key_def vertex_empty_def fun_eq_iff)

lemmas small_eval = insert_key_def get_vertex_local_def data_slots_eval
  vertex_empty_def ikey_empty_def insert_done_def set_key_def ASSOCIATIVITY_def Let_def
  insert_loop_numeral walk_chain_numeral

lemmas build_eval = insert_normal_def insert_runs.simps same_run_def run_vid_def run_val_def
  store_list_def set_ptr_def sync_fetch_and_alloc_edges_def lookup_result_def lookup_ptr_def
  get_edges_local_def upt_rec

lemma stale_g0_eq:
  "stale_g0 = \<lparr>vertices = (\<lambda>i. if i < 1000000 then Vertex ikey_empty (Ptr 3 0) else Vertex (Key 7 OUT 7) (Ptr 3 0)),
     edges = (\<lambda>_. 0), last_ext = 0, last_entry = 0\<rparr>"
  by (simp add: stale_g0_def init_def GStore_def set_key_def ex_cfg_simps fun_eq_iff)

lemma ex_insert8:
  "case insert_keys ex_cfg 2 (ex_keys7 @ [Key 900000 OUT 5]) ex_g0 of
     Inl e \<Rightarrow> False
   | Inr g \<Rightarrow> last_ext g = last_ext ex_g8 \<and> last_entry g = last_entry ex_g8 \<and>
             edges g = edges ex_g8 \<and> (\<forall>i. vertices g i = vertices ex_g8 i)"
  by (simp add: ex_keys7_def ex_g8_def ex_g7_def ex_g0_eq ex_eval)

section \<open>The chain link of insert_key\<close>

text \<open>
  C10 (insert_key writes the new bucket id into a chain slot): evaluated where bucket 0
  holds seven keys and an eighth key with the same hash is inserted. The call returns slot
  800000, the first slot of the new overflow bucket 100000. The bucket id is written into
  slot 8, which was empty, is the first data slot of bucket 1 and is not a chain slot
  (\<open>8 mod ASSOCIATIVITY\<close> is not \<open>ASSOCIATIVITY - 1\<close>); the chain slot 7 of bucket 0
  stays empty.
\<close>

theorem insert_key_links_through_data_slot:
  "case insert_key ex_cfg 2 (Key 900000 OUT 5) ex_g7 of
     Inl e \<Rightarrow> False
   | Inr (slot_id, g) \<Rightarrow>
       slot_id = 800000 \<and> last_ext g = 1 \<and>
       key (vertices ex_g7 8) = ikey_empty \<and> key (vertices g 8) = Key 100000 IN 0 \<and>
       8 mod ASSOCIATIVITY \<noteq> ASSOCIATIVITY - 1 \<and>
       key (vertices ex_g7 7) = ikey_empty \<and> key (vertices g 7) = ikey_empty \<and>
       key (vertices g 800000) = Key 900000 OUT 5"
  by (simp add: ex_g7_def ex_g0_eq ex_eval)

text \<open>
  C8 (colliding keys stay retrievable): eight keys with hash bucket 0 are inserted into the
  empty store. All eight calls succeed and one overflow bucket is allocated, as the claim
  counts, but the lookup of the eighth key ends at the empty chain slot of bucket 0 and
  returns the empty vertex.
\<close>

theorem colliding_key_not_retrievable:
  "case insert_keys ex_cfg 2 (ex_keys7 @ [Key 900000 OUT 5]) ex_g0 of
     Inl e \<Rightarrow> False
   | Inr g \<Rightarrow> last_ext g = 1 \<and>
             get_vertex_local ex_cfg 25001 g (Key 900000 OUT 5) = Inr vertex_empty"
  by (simp add: ex_keys7_def ex_g0_eq ex_eval)

text \<open>
  C2 (every run is retrievable after insert_normal): evaluated on eight triples, sorted both
  ways, whose eight \<open>(s, p)\<close> keys hash to bucket 0. The build succeeds; the run of
  subject 800000 and the run of the object are returned as written, but the lookup of the
  run of subject 900000, whose key went to the overflow bucket, returns size 0.
\<close>

theorem overflowed_run_not_retrievable:
  "lookup_result ex_cfg 2 (insert_normal ex_cfg 2 ex_spo8 ex_spo8 ex_g0) 800000 OUT 5
     = Inr (1, [131073]) \<and>
   lookup_result ex_cfg 2 (insert_normal ex_cfg 2 ex_spo8 ex_spo8 ex_g0) 900000 OUT 5
     = Inr (0, []) \<and>
   lookup_result ex_cfg 2 (insert_normal ex_cfg 2 ex_spo8 ex_spo8 ex_g0) 131073 IN 5
     = Inr (8, [200000, 300000, 400000, 500000, 600000, 700000, 800000, 900000])"
  by (simp add: ex_spo8_def ex_g0_eq ex_eval build_eval)

text \<open>
  C9 (a key that was never inserted is not found): evaluated after sixteen inserts that
  overflow bucket 5 and then bucket 0. The second overflow writes the bucket id 100001 into
  slot 8, a data slot of bucket 1, where it reads as the key \<open>(100001, IN, PREDICATE_ID)\<close>.
  The lookup of that key, which is not among the inserted ones, finds the slot: it returns
  a pointer that is not null, with the size and offset the slot's memory held (3 in the
  store over used memory, 0 in the store over zeroed memory).
\<close>

theorem never_inserted_key_found:
  "Key 100001 IN PREDICATE_ID \<notin> set ex_keys16 \<and>
   lookup_result ex_cfg 2 (insert_keys ex_cfg 2 ex_keys16 stale_g0) 100001 IN PREDICATE_ID
     = Inr (3, [0, 0, 0]) \<and>
   lookup_ptr ex_cfg 2 (insert_keys ex_cfg 2 ex_keys16 ex_g0) 100001 IN PREDICATE_ID
     = Inr (0, EdgesAt 0)"
  by (simp add: ex_keys16_def ex_keys7_def stale_g0_eq ex_g0_eq ex_eval build_eval PREDICATE_ID_def
        iptr_empty_def)

section \<open>The effect of insert_key\<close>

lemma GStore_config_ok:
  assumes "GStore_config ext sid0 km kvs sv se = Inr cfg" and "0 < km"
  shows "config_ok cfg"
proof -
  have a: "km * 1000 * 1000 div 8 = km * 125000" by simp
  have b: "km * 125000 * 80 div 100 = km * 100000" by simp
  from assms show ?thesis
    by (auto simp: GStore_config_def Let_def config_ok_def ASSOCIATIVITY_def MAIN_RATIO_def a b
        split: if_splits)
qed

lemma scan_slots_Placed:
  "scan_slots cfg vs k js = Inr (Placed j) \<Longrightarrow>
     j \<in> set js \<and> j < num_slots cfg \<and> key (vs j) = ikey_empty \<and> k \<noteq> ikey_empty"
  by (induction js) (auto split: if_splits)

lemma data_slots_mod:
  assumes "j \<in> set (data_slots s)" and "s mod ASSOCIATIVITY = 0"
  shows "j mod ASSOCIATIVITY \<noteq> ASSOCIATIVITY - 1"
proof -
  from assms(1) have "s \<le> j" "j < s + 7"
    by (auto simp: data_slots_def ASSOCIATIVITY_def)
  then have "j = s + (j - s)" "j - s < 7" by simp_all
  then obtain i where i: "j = s + i" "i < 7" by blast
  from assms(2) have "(s + i) mod 8 = i mod 8"
    unfolding ASSOCIATIVITY_def by presburger
  with i show ?thesis by (simp add: ASSOCIATIVITY_def)
qed

lemma insert_loop_Suc:
  "insert_loop cfg k (Suc fuel) s g =
    (if \<not> s < num_slots cfg then insert_done cfg k s g
     else case scan_slots cfg (vertices g) k (data_slots s) of
       Inl e \<Rightarrow> Inl e
     | Inr Duplicate \<Rightarrow> Inl AssertionFailed
     | Inr (Placed j) \<Rightarrow>
         insert_done cfg k j (g\<lparr>vertices := (vertices g)(j := set_key k (vertices g j))\<rparr>)
     | Inr Full \<Rightarrow>
         (if num_slots cfg \<le> s + ASSOCIATIVITY then Inl OutOfBounds
          else if key (vertices g (s + ASSOCIATIVITY)) \<noteq> ikey_empty
            then insert_loop cfg k fuel (vid (key (vertices g (s + ASSOCIATIVITY))) * ASSOCIATIVITY) g
          else if \<not> last_ext g < num_buckets_ext cfg then Inl AssertionFailed
          else if num_slots cfg \<le> (num_buckets cfg + last_ext g) * ASSOCIATIVITY then Inl OutOfBounds
          else insert_done cfg k ((num_buckets cfg + last_ext g) * ASSOCIATIVITY)
                 (g\<lparr>vertices := ((vertices g)
                     (s + ASSOCIATIVITY :=
                        set_key (Key (num_buckets cfg + last_ext g) IN 0) (vertices g (s + ASSOCIATIVITY))))
                     ((num_buckets cfg + last_ext g) * ASSOCIATIVITY :=
                        set_key k (((vertices g)
                          (s + ASSOCIATIVITY :=
                             set_key (Key (num_buckets cfg + last_ext g) IN 0) (vertices g (s + ASSOCIATIVITY))))
                          ((num_buckets cfg + last_ext g) * ASSOCIATIVITY))),
                    last_ext := last_ext g + 1\<rparr>)))"
proof -
  have c: "s + (ASSOCIATIVITY - 1) + 1 = s + ASSOCIATIVITY"
    by (simp add: ASSOCIATIVITY_def)
  show ?thesis
    unfolding insert_loop.simps c
    by (cases g) (auto simp: Let_def set_key_def ikey_empty_def split: sum.splits scan_result.splits)
qed

lemma insert_done_eq: "insert_done cfg k s g = Inr (r, g') \<Longrightarrow> g' = g \<and> r = s \<and> s < num_slots cfg \<and> key (vertices g s) = k"
  by (auto simp: insert_done_def split: if_splits)

declare insert_loop.simps(2) [simp del]

lemma insert_loop_effect:
  "insert_loop cfg k fuel s g = Inr (r, g') \<Longrightarrow> s mod ASSOCIATIVITY = 0 \<Longrightarrow>
     insert_effect cfg k g g' \<and> r < num_slots cfg \<and> key (vertices g' r) = k"
proof (induction fuel arbitrary: s)
  case 0
  then show ?case by simp
next
  case (Suc fuel)
  show ?case
  proof (cases "s < num_slots cfg")
    case False
    with Suc.prems show ?thesis
      by (auto simp: insert_loop_Suc insert_effect_def dest!: insert_done_eq)
  next
    case True
    note inr = True
    show ?thesis
    proof (cases "scan_slots cfg (vertices g) k (data_slots s)")
      case (Inl e)
      with Suc.prems inr show ?thesis by (simp add: insert_loop_Suc)
    next
      case (Inr res)
      show ?thesis
      proof (cases res)
        case Duplicate
        with Suc.prems inr Inr show ?thesis by (simp add: insert_loop_Suc)
      next
        case (Placed j)
        with Inr have sc: "scan_slots cfg (vertices g) k (data_slots s) = Inr (Placed j)" by simp
        from scan_slots_Placed[OF sc] data_slots_mod[of j s] Suc.prems(2)
        have j: "j mod ASSOCIATIVITY \<noteq> ASSOCIATIVITY - 1" "j < num_slots cfg"
          "key (vertices g j) = ikey_empty" "k \<noteq> ikey_empty" by auto
        from Suc.prems(1) inr sc
        have "insert_done cfg k j (g\<lparr>vertices := (vertices g)(j := set_key k (vertices g j))\<rparr>) = Inr (r, g')"
          by (simp add: insert_loop_Suc)
        from insert_done_eq[OF this] j show ?thesis
          unfolding insert_effect_def by (auto simp: set_key_def)
      next
        case Full
        with Inr have sc: "scan_slots cfg (vertices g) k (data_slots s) = Inr Full" by simp
        define c where "c = s + ASSOCIATIVITY"
        have cmod: "c mod ASSOCIATIVITY = 0"
          using Suc.prems(2) by (simp add: c_def)
        show ?thesis
        proof (cases "key (vertices g c) \<noteq> ikey_empty")
          case True
          with Suc.prems(1) inr sc
          have "insert_loop cfg k fuel (vid (key (vertices g c)) * ASSOCIATIVITY) g = Inr (r, g')"
            by (simp add: insert_loop_Suc c_def split: if_splits)
          from Suc.IH[OF this] show ?thesis by simp
        next
          case False
          then have ce: "key (vertices g c) = ikey_empty" by simp
          from Suc.prems(1) inr sc ce
          have le: "last_ext g < num_buckets_ext cfg"
            by (simp add: insert_loop_Suc c_def split: if_splits)
          define g2 where "g2 = g\<lparr>vertices := ((vertices g)
                     (c := set_key (Key (num_buckets cfg + last_ext g) IN 0) (vertices g c)))
                     ((num_buckets cfg + last_ext g) * ASSOCIATIVITY :=
                        set_key k (((vertices g)
                          (c := set_key (Key (num_buckets cfg + last_ext g) IN 0) (vertices g c)))
                          ((num_buckets cfg + last_ext g) * ASSOCIATIVITY))),
                 last_ext := last_ext g + 1\<rparr>"
          from Suc.prems(1) inr sc ce le
          have "insert_done cfg k ((num_buckets cfg + last_ext g) * ASSOCIATIVITY) g2 = Inr (r, g')"
            by (simp add: insert_loop_Suc c_def g2_def split: if_splits)
          from insert_done_eq[OF this]
          have f: "g' = g2" "r = (num_buckets cfg + last_ext g) * ASSOCIATIVITY"
            "r < num_slots cfg" "key (vertices g2 r) = k" by auto
          have "insert_effect cfg k g g2"
            unfolding insert_effect_def
            by (intro disjI2, rule exI[of _ c]) (simp add: cmod ce le g2_def)
          with f show ?thesis by simp
        qed
      qed
    qed
  qed
qed

lemma insert_key_effect:
  "insert_key cfg fuel k g = Inr (r, g') \<Longrightarrow>
     insert_effect cfg k g g' \<and> r < num_slots cfg \<and> key (vertices g' r) = k \<and> 0 < num_buckets cfg"
  by (auto simp: insert_key_def split: if_splits dest!: insert_loop_effect)


lemma insert_effect_frame:
  assumes "insert_effect cfg k g g'"
  shows "edges g' = edges g" "last_entry g' = last_entry g"
    "ptr (vertices g' i) = ptr (vertices g i)"
    "last_ext g \<le> last_ext g'"
    "last_ext g' \<noteq> last_ext g \<Longrightarrow> last_ext g < num_buckets_ext cfg \<and> last_ext g' = last_ext g + 1"
  using assms unfolding insert_effect_def by (auto simp: set_key_def)

lemma insert_effect_chain:
  assumes "insert_effect cfg k g g'" "i mod ASSOCIATIVITY = ASSOCIATIVITY - 1"
  shows "key (vertices g' i) = key (vertices g i)"
  using assms unfolding insert_effect_def by (auto simp: set_key_def ASSOCIATIVITY_def)

lemma insert_effect_primary:
  assumes "insert_effect cfg k g g'" "i < num_buckets cfg * ASSOCIATIVITY"
    "key (vertices g i) \<noteq> ikey_empty"
  shows "key (vertices g' i) = key (vertices g i)"
  using assms unfolding insert_effect_def by (auto simp: set_key_def)

lemma build_step_chain_free:
  assumes "build_step cfg g g'" "chain_free cfg g"
  shows "chain_free cfg g'"
  using assms
proof cases
  case (step_insert_key fuel k slot_id)
  from insert_key_effect[OF step_insert_key] assms(2) show ?thesis
    by (auto simp: chain_free_def insert_effect_chain)
next
  case (step_alloc n off)
  with assms(2) show ?thesis
    by (auto simp: chain_free_def sync_fetch_and_alloc_edges_def Let_def split: if_splits)
next
  case (step_store slot_id off vals)
  with assms(2) show ?thesis
    by (auto simp: chain_free_def store_list_def set_ptr_def)
qed

lemma reachable_chain_free: "reachable cfg g \<Longrightarrow> chain_free cfg g"
proof (induction rule: reachable.induct)
  case (reach_init mem_v mem_e ext0)
  show ?case by (simp add: chain_free_def init_def GStore_def set_key_def)
next
  case (reach_step g g')
  then show ?case by (simp add: build_step_chain_free)
qed

lemma find_key_cases:
  assumes "\<forall>j\<in>set js. j < num_slots cfg"
  shows "(find_key cfg vs k js = Inr None \<and> (\<forall>j\<in>set js. key (vs j) \<noteq> k)) \<or>
         (\<exists>j\<in>set js. find_key cfg vs k js = Inr (Some (vs j)) \<and> key (vs j) = k)"
  using assms by (induction js) auto

lemma data_slots_bound:
  assumes "config_ok cfg" "b < num_buckets cfg + num_buckets_ext cfg"
  shows "\<forall>j\<in>set (data_slots (b * ASSOCIATIVITY)). j < num_slots cfg"
    and "b * ASSOCIATIVITY + (ASSOCIATIVITY - 1) < num_slots cfg"
proof -
  from assms(2) have "Suc b \<le> num_buckets cfg + num_buckets_ext cfg" by simp
  then have "Suc b * ASSOCIATIVITY \<le> (num_buckets cfg + num_buckets_ext cfg) * ASSOCIATIVITY"
    by (rule mult_le_mono1)
  with assms(1) have le: "b * ASSOCIATIVITY + ASSOCIATIVITY \<le> num_slots cfg"
    by (simp add: config_ok_def)
  then show "\<forall>j\<in>set (data_slots (b * ASSOCIATIVITY)). j < num_slots cfg"
    by (auto simp: data_slots_def ASSOCIATIVITY_def)
  from le show "b * ASSOCIATIVITY + (ASSOCIATIVITY - 1) < num_slots cfg"
    by (simp add: ASSOCIATIVITY_def)
qed

lemma chain_slot_mod: "(b * ASSOCIATIVITY + (ASSOCIATIVITY - 1)) mod ASSOCIATIVITY = ASSOCIATIVITY - 1"
  by (simp add: ASSOCIATIVITY_def)

lemma walk_chain_one_bucket:
  assumes "config_ok cfg" "chain_free cfg g" "b < num_buckets cfg + num_buckets_ext cfg"
  shows "\<exists>v. walk_chain cfg (vertices g) k (Suc fuel) b = Inr v \<and> (key v = k \<or> v = vertex_empty)"
proof -
  note bd = data_slots_bound[OF assms(1,3)]
  from assms(2) bd(2) chain_slot_mod[of b]
  have ce: "key (vertices g (b * ASSOCIATIVITY + (ASSOCIATIVITY - 1))) = ikey_empty"
    by (simp add: chain_free_def)
  from find_key_cases[OF bd(1), of "vertices g" k] show ?thesis
    using ce bd(2) by (auto simp: Let_def)
qed

lemma walk_remote_one_bucket:
  assumes "config_ok cfg" "chain_free cfg g" "b < num_buckets cfg + num_buckets_ext cfg"
  shows "\<exists>r. walk_remote cfg (vertices g) k (Suc fuel) b = Inr r"
proof -
  note bd = data_slots_bound[OF assms(1,3)]
  from assms(2) bd(2) chain_slot_mod[of b]
  have ce: "key (vertices g (b * ASSOCIATIVITY + (ASSOCIATIVITY - 1))) = ikey_empty"
    by (simp add: chain_free_def)
  from find_key_cases[OF bd(1), of "vertices g" k] show ?thesis
    using ce bd(2) by (auto simp: Let_def)
qed

section \<open>Termination of the bucket walk\<close>

text \<open>
  C5 (the bucket walk terminates): in every store reached by the build, the walk from any
  primary bucket returns within \<open>num_buckets_ext + 1\<close> buckets, either with a vertex
  that holds the probed key or with the empty vertex at an empty chain slot; so do
  \<open>get_vertex_local\<close> and the walk of \<open>get_vertex_remote\<close> over this store.
\<close>

theorem chain_walk_terminates:
  assumes "reachable cfg g" and "config_ok cfg" and "b < num_buckets cfg"
  shows "(\<exists>v. walk_chain cfg (vertices g) k (Suc (num_buckets_ext cfg)) b = Inr v \<and>
              (key v = k \<or> v = vertex_empty)) \<and>
         (\<exists>v. get_vertex_local cfg (Suc (num_buckets_ext cfg)) g k = Inr v \<and>
              (key v = k \<or> v = vertex_empty)) \<and>
         (\<exists>r. walk_remote cfg (vertices g) k (Suc (num_buckets_ext cfg))
                 (hash cfg k mod num_buckets cfg) = Inr r)"
proof -
  note cf = reachable_chain_free[OF assms(1)]
  from assms(2) have nb: "0 < num_buckets cfg" by (simp add: config_ok_def)
  then have h: "hash cfg k mod num_buckets cfg < num_buckets cfg + num_buckets_ext cfg"
    by (simp add: trans_less_add1)
  from assms(3) have b: "b < num_buckets cfg + num_buckets_ext cfg" by simp
  from walk_chain_one_bucket[OF assms(2) cf b] walk_chain_one_bucket[OF assms(2) cf h]
    walk_remote_one_bucket[OF assms(2) cf h] nb
  show ?thesis by (simp add: get_vertex_local_def)
qed

lemma insert_keys_reachable:
  "reachable cfg g \<Longrightarrow> insert_keys cfg fuel ks g = Inr g' \<Longrightarrow> reachable cfg g'"
proof (induction ks arbitrary: g)
  case Nil
  then show ?case by simp
next
  case (Cons k ks)
  from Cons.prems(2) obtain s g1 where
    s: "insert_key cfg fuel k g = Inr (s, g1)" and r: "insert_keys cfg fuel ks g1 = Inr g'"
    by (auto split: sum.splits)
  from Cons.prems(1) step_insert_key[OF s] have "reachable cfg g1" by (rule reach_step)
  from Cons.IH[OF this r] show ?case .
qed

lemma ex_cfg_ok: "config_ok ex_cfg"
  by (simp add: config_ok_def ex_cfg_simps ASSOCIATIVITY_def)

theorem chain_walk_terminates_witness:
  "\<exists>g. insert_keys ex_cfg 2 (ex_keys7 @ [Key 900000 OUT 5]) ex_g0 = Inr g \<and>
       reachable ex_cfg g \<and> config_ok ex_cfg \<and> (0::nat) < num_buckets ex_cfg \<and>
       (\<exists>v. get_vertex_local ex_cfg (Suc (num_buckets_ext ex_cfg)) g (Key 900000 OUT 5) = Inr v)"
proof -
  from ex_insert8
  obtain g where g: "insert_keys ex_cfg 2 (ex_keys7 @ [Key 900000 OUT 5]) ex_g0 = Inr g"
    by (auto split: sum.splits)
  have r0: "reachable ex_cfg ex_g0" unfolding ex_g0_def by (rule reach_init)
  from insert_keys_reachable[OF r0 g] have r: "reachable ex_cfg g" .
  have nb: "(0::nat) < num_buckets ex_cfg" by (simp add: ex_cfg_simps)
  from chain_walk_terminates[OF r ex_cfg_ok nb, of "Key 900000 OUT 5"] g r ex_cfg_ok nb
  show ?thesis by blast
qed

section \<open>The build is made of build steps\<close>

lemma store_after_insert_steps:
  assumes "insert_key cfg fuel k g = Inr (slot_id, g1)"
  shows "(build_step cfg)\<^sup>*\<^sup>* g (store_list slot_id off vals g1)"
proof -
  from insert_key_effect[OF assms] have "slot_id < num_slots cfg" by simp
  then have "build_step cfg g1 (store_list slot_id off vals g1)" by (rule step_store)
  with step_insert_key[OF assms] show ?thesis by simp
qed

lemma insert_runs_steps:
  "insert_runs cfg fuel d ts off g = Inr (off', g') \<Longrightarrow> (build_step cfg)\<^sup>*\<^sup>* g g'"
proof (induction cfg fuel d ts off g rule: insert_runs.induct)
  case (1 cfg fuel d off g)
  then show ?case by simp
next
  case (2 cfg fuel d t ts off g)
  from "2.prems" obtain slot_id g1 where
    ik: "insert_key cfg fuel (Key (run_vid d t) d (t_p t)) g = Inr (slot_id, g1)"
    by (auto simp: Let_def split: sum.splits)
  define run where "run = t # takeWhile (same_run d t) ts"
  from "2.prems" ik
  have rest: "insert_runs cfg fuel d (dropWhile (same_run d t) ts) (off + length run)
                (store_list slot_id off (map (run_val d) run) g1) = Inr (off', g')"
    by (simp add: Let_def run_def)
  from "2.IH"[OF run_def ik[symmetric, THEN sym] refl rest]
  have "(build_step cfg)\<^sup>*\<^sup>* (store_list slot_id off (map (run_val d) run) g1) g'" .
  with store_after_insert_steps[OF ik] show ?case by (rule rtranclp_trans)
qed

lemma insert_index_map_steps:
  "insert_index_map cfg fuel d m g = Inr g' \<Longrightarrow> (build_step cfg)\<^sup>*\<^sup>* g g'"
proof (induction m arbitrary: g)
  case Nil
  then show ?case by simp
next
  case (Cons e m)
  obtain i vs where e: "e = (i, vs)" by (cases e)
  from Cons.prems e obtain off g1 slot_id g2 where
    al: "sync_fetch_and_alloc_edges cfg (length vs) g = Inr (off, g1)" and
    ik: "insert_key cfg fuel (Key 0 d i) g1 = Inr (slot_id, g2)" and
    rest: "insert_index_map cfg fuel d m (store_list slot_id off vs g2) = Inr g'"
    by (auto split: sum.splits)
  from step_alloc[OF al] have "(build_step cfg)\<^sup>*\<^sup>* g g1" by simp
  also note store_after_insert_steps[OF ik]
  also note Cons.IH[OF rest]
  finally show ?case .
qed

lemma insert_normal_steps:
  assumes "insert_normal cfg fuel spo ops g = Inr g'"
  shows "(build_step cfg)\<^sup>*\<^sup>* g g'"
proof -
  define n where "n = length (takeWhile (\<lambda>t. is_tpid cfg (t_o t)) ops)"
  from assms obtain off g1 off1 g2 off2 where
    al: "sync_fetch_and_alloc_edges cfg (length spo + length ops - n) g = Inr (off, g1)" and
    out: "insert_runs cfg fuel OUT spo off g1 = Inr (off1, g2)" and
    inn: "insert_runs cfg fuel IN (drop n ops) off1 g2 = Inr (off2, g')"
    by (auto simp: insert_normal_def Let_def n_def split: sum.splits)
  from step_alloc[OF al] have "(build_step cfg)\<^sup>*\<^sup>* g g1" by simp
  also note insert_runs_steps[OF out]
  also note insert_runs_steps[OF inn]
  finally show ?thesis .
qed

lemma insert_index_steps:
  assumes "insert_index cfg fuel g = Inr g'"
  shows "(build_step cfg)\<^sup>*\<^sup>* g g'"
proof -
  from assms obtain m :: index_maps and g1 g2 where
    a: "insert_index_map cfg fuel IN (tidx_map m) g = Inr g1" and
    b: "insert_index_map cfg fuel IN (pidx_in_map m) g1 = Inr g2" and
    c: "insert_index_map cfg fuel OUT (pidx_out_map m) g2 = Inr g'"
    by (auto simp: insert_index_def split: sum.splits)
  note insert_index_map_steps[OF a]
  also note insert_index_map_steps[OF b]
  also note insert_index_map_steps[OF c]
  finally show ?thesis .
qed

lemma reachable_steps:
  "(build_step cfg)\<^sup>*\<^sup>* g g' \<Longrightarrow> reachable cfg g \<Longrightarrow> reachable cfg g'"
  by (induction rule: rtranclp_induct) (auto intro: reach_step)


section \<open>The bump counters\<close>

lemma build_step_counters:
  assumes "build_step cfg g g'"
  shows "last_entry g \<le> last_entry g' \<and> last_ext g \<le> last_ext g' \<and>
     (last_entry g' \<noteq> last_entry g \<longrightarrow> last_entry g' < num_entries cfg) \<and>
     (last_ext g' \<noteq> last_ext g \<longrightarrow>
        last_ext g < num_buckets_ext cfg \<and> last_ext g' = last_ext g + 1)"
  using assms
proof cases
  case (step_insert_key fuel k slot_id)
  from insert_key_effect[OF this] have e: "insert_effect cfg k g g'" by simp
  from insert_effect_frame(2,4,5)[OF e] show ?thesis by auto
next
  case (step_alloc n off)
  then show ?thesis
    by (auto simp: sync_fetch_and_alloc_edges_def Let_def split: if_splits)
next
  case (step_store slot_id off vals)
  then show ?thesis by (simp add: store_list_def)
qed

lemma build_steps_counters:
  assumes "(build_step cfg)\<^sup>*\<^sup>* g g'"
  shows "last_ext g \<le> last_ext g' \<and> last_entry g \<le> last_entry g' \<and>
     (last_ext g \<le> num_buckets_ext cfg \<longrightarrow> last_ext g' \<le> num_buckets_ext cfg) \<and>
     (last_entry g = 0 \<longrightarrow> last_entry g' = 0 \<or> last_entry g' < num_entries cfg)"
  using assms
proof (induction rule: rtranclp_induct)
  case base
  show ?case by simp
next
  case (step y z)
  from build_step_counters[OF step.hyps(2)] step.IH show ?case
    by (cases "last_ext z = last_ext y"; cases "last_entry z = last_entry y") auto
qed

text \<open>
  C6 as stated (both counters are 0 after construction and stay strictly below their
  capacities) fails: in a store with one overflow bucket, eight keys with the same hash
  bring \<open>last_ext\<close> to 1, which is \<open>num_buckets_ext\<close>; and \<open>last_ext\<close> after
  construction and \<open>init\<close> is whatever the storage of the object held.
\<close>

theorem last_ext_reaches_capacity:
  "map_sum id last_ext (insert_keys tiny_cfg 2 (tiny_keys7 @ [Key 131086 OUT 5]) tiny_g0) = Inr 1 \<and>
   num_buckets_ext tiny_cfg = 1 \<and>
   last_ext (init tiny_cfg (GStore (\<lambda>_. vertex_empty) (\<lambda>_. 0) 7)) = 7"
  by (simp add: tiny_keys7_def tiny_g0_eq small_eval tiny_cfg_simps init_def GStore_def)

text \<open>
  C6, amended: \<open>last_entry\<close> is 0 after construction and \<open>init\<close>. No build step
  decrements either counter. A step that changes \<open>last_entry\<close> leaves it strictly below
  \<open>num_entries\<close>; a step that changes \<open>last_ext\<close> found it strictly below
  \<open>num_buckets_ext\<close> and adds one. So throughout the build \<open>last_entry\<close> is 0 or
  strictly below \<open>num_entries\<close>, and \<open>last_ext\<close> is at most \<open>num_buckets_ext\<close>
  when it started there.
\<close>

theorem counters_monotone_and_bounded:
  "last_entry (init cfg (GStore mem_v mem_e ext0)) = 0 \<and>
   (build_step cfg g g' \<longrightarrow>
      last_entry g \<le> last_entry g' \<and> last_ext g \<le> last_ext g' \<and>
      (last_entry g' \<noteq> last_entry g \<longrightarrow> last_entry g' < num_entries cfg) \<and>
      (last_ext g' \<noteq> last_ext g \<longrightarrow>
         last_ext g < num_buckets_ext cfg \<and> last_ext g' = last_ext g + 1)) \<and>
   ((build_step cfg)\<^sup>*\<^sup>* (init cfg (GStore mem_v mem_e ext0)) g' \<longrightarrow>
      (last_entry g' = 0 \<or> last_entry g' < num_entries cfg) \<and>
      (ext0 \<le> num_buckets_ext cfg \<longrightarrow> last_ext g' \<le> num_buckets_ext cfg))"
proof -
  have i: "last_entry (init cfg (GStore mem_v mem_e ext0)) = 0"
     "last_ext (init cfg (GStore mem_v mem_e ext0)) = ext0"
    by (simp_all add: init_def GStore_def)
  show ?thesis
    using build_step_counters[of cfg g g']
      build_steps_counters[of cfg "init cfg (GStore mem_v mem_e ext0)" g'] i
    by auto
qed


theorem counters_monotone_and_bounded_witness:
  "build_step ex_cfg ex_g0 (ex_g0\<lparr>last_entry := 3\<rparr>) \<and>
   (build_step ex_cfg)\<^sup>*\<^sup>* (init ex_cfg (GStore (\<lambda>_. vertex_empty) (\<lambda>_. 0) 0))
      (ex_g0\<lparr>last_entry := 3\<rparr>) \<and>
   last_entry ex_g0 \<le> last_entry (ex_g0\<lparr>last_entry := 3\<rparr>) \<and>
   last_entry (ex_g0\<lparr>last_entry := 3\<rparr>) < num_entries ex_cfg \<and>
   last_ext (ex_g0\<lparr>last_entry := 3\<rparr>) \<le> num_buckets_ext ex_cfg"
proof -
  have "sync_fetch_and_alloc_edges ex_cfg 3 ex_g0 = Inr (0, ex_g0\<lparr>last_entry := 3\<rparr>)"
    by (simp add: sync_fetch_and_alloc_edges_def Let_def ex_g0_eq ex_cfg_simps)
  then have st: "build_step ex_cfg ex_g0 (ex_g0\<lparr>last_entry := 3\<rparr>)" by (rule step_alloc)
  then have sts: "(build_step ex_cfg)\<^sup>*\<^sup>* (init ex_cfg (GStore (\<lambda>_. vertex_empty) (\<lambda>_. 0) 0))
      (ex_g0\<lparr>last_entry := 3\<rparr>)"
    unfolding ex_g0_def[symmetric] by simp
  from counters_monotone_and_bounded[of ex_cfg "\<lambda>_. vertex_empty" "\<lambda>_. 0" 0 ex_g0
      "ex_g0\<lparr>last_entry := 3\<rparr>"] st sts
  show ?thesis by (simp add: ex_cfg_simps)
qed

section \<open>Fresh and duplicate keys\<close>

lemma build_step_primary:
  assumes "build_step cfg g g'" "i < num_buckets cfg * ASSOCIATIVITY" "key (vertices g i) \<noteq> ikey_empty"
  shows "key (vertices g' i) = key (vertices g i)"
  using assms(1)
proof cases
  case (step_insert_key fuel k slot_id)
  from insert_key_effect[OF this] have "insert_effect cfg k g g'" by simp
  from insert_effect_primary[OF this assms(2,3)] show ?thesis .
next
  case (step_alloc n off)
  then show ?thesis
    by (auto simp: sync_fetch_and_alloc_edges_def Let_def split: if_splits)
next
  case (step_store slot_id off vals)
  then show ?thesis by (simp add: store_list_def set_ptr_def)
qed

lemma build_steps_primary:
  assumes "(build_step cfg)\<^sup>*\<^sup>* g g'" "i < num_buckets cfg * ASSOCIATIVITY"
    "key (vertices g i) \<noteq> ikey_empty"
  shows "key (vertices g' i) = key (vertices g i)"
  using assms
proof (induction rule: rtranclp_induct)
  case base
  show ?case by simp
next
  case (step y z)
  then have "key (vertices y i) = key (vertices g i)" by simp
  with build_step_primary[OF step.hyps(2) step.prems(1)] step.prems(2) show ?case by simp
qed

lemma scan_slots_skip:
  assumes "\<forall>x\<in>set xs. x < num_slots cfg \<and> key (vs x) \<noteq> k \<and> key (vs x) \<noteq> ikey_empty"
  shows "scan_slots cfg vs k (xs @ ys) = scan_slots cfg vs k ys"
  using assms by (induction xs) auto

lemma data_slots_split:
  assumes "i < ASSOCIATIVITY - 1"
  shows "data_slots s = map (\<lambda>x. s + x) [0..<i] @ (s + i) # map (\<lambda>x. s + x) [Suc i..<ASSOCIATIVITY - 1]"
proof -
  have "[0..<i + (ASSOCIATIVITY - 1 - i)] = [0..<i] @ [i..<i + (ASSOCIATIVITY - 1 - i)]"
    by (rule upt_add_eq_append) simp
  with assms have "[0..<ASSOCIATIVITY - 1] = [0..<i] @ [i..<ASSOCIATIVITY - 1]"
    by simp
  also from assms have "[i..<ASSOCIATIVITY - 1] = i # [Suc i..<ASSOCIATIVITY - 1]"
    by (simp add: upt_conv_Cons)
  finally show ?thesis by (simp add: data_slots_def)
qed

lemma primary_slot_bound:
  assumes "config_ok cfg" "b < num_buckets cfg" "i < ASSOCIATIVITY"
  shows "b * ASSOCIATIVITY + i < num_buckets cfg * ASSOCIATIVITY"
    and "b * ASSOCIATIVITY + i < num_slots cfg"
proof -
  from assms(2) have "Suc b * ASSOCIATIVITY \<le> num_buckets cfg * ASSOCIATIVITY"
    by (intro mult_le_mono1) simp
  with assms(3) show 1: "b * ASSOCIATIVITY + i < num_buckets cfg * ASSOCIATIVITY" by simp
  from assms(1) have "num_buckets cfg * ASSOCIATIVITY \<le> num_slots cfg"
    by (simp add: config_ok_def add_mult_distrib)
  with 1 show "b * ASSOCIATIVITY + i < num_slots cfg" by simp
qed

lemma scan_slots_bucket:
  assumes "config_ok cfg" "b < num_buckets cfg" "i < ASSOCIATIVITY - 1"
    and "\<forall>i'<i. key (vs (b * ASSOCIATIVITY + i')) \<noteq> k \<and> key (vs (b * ASSOCIATIVITY + i')) \<noteq> ikey_empty"
  shows "scan_slots cfg vs k (data_slots (b * ASSOCIATIVITY)) =
     (if key (vs (b * ASSOCIATIVITY + i)) = k then Inr Duplicate
      else if key (vs (b * ASSOCIATIVITY + i)) = ikey_empty then Inr (Placed (b * ASSOCIATIVITY + i))
      else scan_slots cfg vs k (map (\<lambda>x. b * ASSOCIATIVITY + x) [Suc i..<ASSOCIATIVITY - 1]))"
proof -
  have pre: "\<forall>x\<in>set (map (\<lambda>x. b * ASSOCIATIVITY + x) [0..<i]).
      x < num_slots cfg \<and> key (vs x) \<noteq> k \<and> key (vs x) \<noteq> ikey_empty"
  proof
    fix x assume "x \<in> set (map (\<lambda>x. b * ASSOCIATIVITY + x) [0..<i])"
    then obtain i' where i': "x = b * ASSOCIATIVITY + i'" "i' < i"
      by (auto simp only: set_map set_upt image_iff atLeastLessThan_iff)
    with assms(3) have "i' < ASSOCIATIVITY" by simp
    from primary_slot_bound(2)[OF assms(1,2) this] i' assms(4)
    show "x < num_slots cfg \<and> key (vs x) \<noteq> k \<and> key (vs x) \<noteq> ikey_empty" by simp
  qed
  from assms(3) primary_slot_bound(2)[OF assms(1,2), of i]
  have "b * ASSOCIATIVITY + i < num_slots cfg" by simp
  then show ?thesis
    unfolding data_slots_split[OF assms(3)] scan_slots_skip[OF pre] by simp
qed

lemma insert_key_free_slot:
  assumes "config_ok cfg" "0 < fuel" "i < ASSOCIATIVITY - 1"
    and "b = hash cfg k mod num_buckets cfg"
    and "key (vertices g (b * ASSOCIATIVITY + i)) = ikey_empty" "k \<noteq> ikey_empty"
    and "\<forall>i'<i. key (vertices g (b * ASSOCIATIVITY + i')) \<noteq> k \<and>
                key (vertices g (b * ASSOCIATIVITY + i')) \<noteq> ikey_empty"
  shows "insert_key cfg fuel k g =
     Inr (b * ASSOCIATIVITY + i,
          g\<lparr>vertices := (vertices g)(b * ASSOCIATIVITY + i := set_key k (vertices g (b * ASSOCIATIVITY + i)))\<rparr>)"
proof -
  from assms(1) have nb: "0 < num_buckets cfg" by (simp add: config_ok_def)
  with assms(4) have b: "b < num_buckets cfg" by simp
  from assms(2) obtain f where f: "fuel = Suc f" by (cases fuel) auto
  from primary_slot_bound(2)[OF assms(1) b, of 0] primary_slot_bound(2)[OF assms(1) b, of i] assms(3)
  have bd: "b * ASSOCIATIVITY < num_slots cfg" "b * ASSOCIATIVITY + i < num_slots cfg"
    by (simp_all add: ASSOCIATIVITY_def)
  have sc: "scan_slots cfg (vertices g) k (data_slots (b * ASSOCIATIVITY)) = Inr (Placed (b * ASSOCIATIVITY + i))"
    using scan_slots_bucket[OF assms(1) b assms(3,7)] assms(5,6) by auto
  show ?thesis
    using nb bd sc assms(4)
    by (simp add: insert_key_def f insert_loop_Suc insert_done_def set_key_def)
qed

lemma insert_key_duplicate:
  assumes "config_ok cfg" "0 < fuel" "i < ASSOCIATIVITY - 1"
    and "b = hash cfg k mod num_buckets cfg"
    and "key (vertices g (b * ASSOCIATIVITY + i)) = k"
    and "\<forall>i'<i. key (vertices g (b * ASSOCIATIVITY + i')) \<noteq> k \<and>
                key (vertices g (b * ASSOCIATIVITY + i')) \<noteq> ikey_empty"
  shows "insert_key cfg fuel k g = Inl AssertionFailed"
proof -
  from assms(1) have nb: "0 < num_buckets cfg" by (simp add: config_ok_def)
  with assms(4) have b: "b < num_buckets cfg" by simp
  from assms(2) obtain f where f: "fuel = Suc f" by (cases fuel) auto
  from primary_slot_bound(2)[OF assms(1) b, of 0]
  have bd: "b * ASSOCIATIVITY < num_slots cfg" by (simp add: ASSOCIATIVITY_def)
  have sc: "scan_slots cfg (vertices g) k (data_slots (b * ASSOCIATIVITY)) = Inr Duplicate"
    using scan_slots_bucket[OF assms(1) b assms(3,6)] assms(5) by auto
  show ?thesis
    using nb bd sc assms(4) by (simp add: insert_key_def f insert_loop_Suc)
qed

text \<open>
  C4 as stated (every insert of a key that is not in the table succeeds) fails: in a store
  without overflow buckets, seven distinct keys fill bucket 0, and the insert of an eighth
  distinct key with the same hash fails the assertion on \<open>last_ext\<close>.
\<close>

theorem fresh_key_insert_fails:
  "\<not> isl (insert_keys full_cfg 2 tiny_keys7 full_g0) \<and>
   distinct (tiny_keys7 @ [Key 131086 OUT 5]) \<and>
   insert_keys full_cfg 2 (tiny_keys7 @ [Key 131086 OUT 5]) full_g0 = Inl AssertionFailed"
  by (simp add: tiny_keys7_def full_g0_eq small_eval full_cfg_simps)

text \<open>
  C4, amended: the insert of a key that is not the empty key, into a store whose primary
  bucket for the key has a free data slot with no copy of the key before it, succeeds,
  stores the key in that slot and returns its index; an insert of the same key in any store
  reached from there by further build steps fails the duplicate assertion.
\<close>

theorem insert_key_fresh_then_duplicate:
  assumes "config_ok cfg" and "0 < fuel" and "0 < fuel'" and "k \<noteq> ikey_empty"
    and "b = hash cfg k mod num_buckets cfg" and "i < ASSOCIATIVITY - 1"
    and "key (vertices g (b * ASSOCIATIVITY + i)) = ikey_empty"
    and "\<forall>i'<i. key (vertices g (b * ASSOCIATIVITY + i')) \<noteq> k \<and>
                key (vertices g (b * ASSOCIATIVITY + i')) \<noteq> ikey_empty"
  shows "\<exists>g1. insert_key cfg fuel k g = Inr (b * ASSOCIATIVITY + i, g1) \<and>
           key (vertices g1 (b * ASSOCIATIVITY + i)) = k \<and>
           (\<forall>g'. (build_step cfg)\<^sup>*\<^sup>* g1 g' \<longrightarrow> insert_key cfg fuel' k g' = Inl AssertionFailed)"
proof -
  define g1 where "g1 = g\<lparr>vertices := (vertices g)(b * ASSOCIATIVITY + i := set_key k (vertices g (b * ASSOCIATIVITY + i)))\<rparr>"
  have ins: "insert_key cfg fuel k g = Inr (b * ASSOCIATIVITY + i, g1)"
    unfolding g1_def by (rule insert_key_free_slot[OF assms(1,2,6,5,7,4,8)])
  have k1: "key (vertices g1 (b * ASSOCIATIVITY + i)) = k"
    by (simp add: g1_def set_key_def)
  have old: "\<forall>i'<i. key (vertices g1 (b * ASSOCIATIVITY + i')) \<noteq> k \<and>
                key (vertices g1 (b * ASSOCIATIVITY + i')) \<noteq> ikey_empty"
    using assms(8) by (simp add: g1_def)
  from assms(1) have nb: "0 < num_buckets cfg" by (simp add: config_ok_def)
  with assms(5) have b: "b < num_buckets cfg" by simp
  have later: "insert_key cfg fuel' k g' = Inl AssertionFailed" if st: "(build_step cfg)\<^sup>*\<^sup>* g1 g'" for g'
  proof -
    have keep: "key (vertices g' (b * ASSOCIATIVITY + i')) = key (vertices g1 (b * ASSOCIATIVITY + i'))"
      if "i' \<le> i" for i'
    proof -
      from that assms(6) have "i' < ASSOCIATIVITY" by simp
      from primary_slot_bound(1)[OF assms(1) b this]
      have p: "b * ASSOCIATIVITY + i' < num_buckets cfg * ASSOCIATIVITY" .
      from that old k1 assms(4) have "key (vertices g1 (b * ASSOCIATIVITY + i')) \<noteq> ikey_empty"
        by (cases "i' = i") auto
      from build_steps_primary[OF st p this] show ?thesis .
    qed
    have 1: "key (vertices g' (b * ASSOCIATIVITY + i)) = k" using keep[of i] k1 by simp
    have 2: "\<forall>i'<i. key (vertices g' (b * ASSOCIATIVITY + i')) \<noteq> k \<and>
                key (vertices g' (b * ASSOCIATIVITY + i')) \<noteq> ikey_empty"
      using keep old by simp
    show ?thesis by (rule insert_key_duplicate[OF assms(1,3,6,5) 1 2])
  qed
  from ins k1 later show ?thesis by blast
qed


theorem insert_key_fresh_then_duplicate_witness:
  "\<exists>g1. insert_key ex_cfg 2 (Key 10 OUT 5) ex_g0 = Inr (80, g1) \<and>
        key (vertices g1 80) = Key 10 OUT 5 \<and>
        insert_key ex_cfg 2 (Key 10 OUT 5) g1 = Inl AssertionFailed"
proof -
  have "\<exists>g1. insert_key ex_cfg 2 (Key 10 OUT 5) ex_g0 = Inr (10 * ASSOCIATIVITY + 0, g1) \<and>
           key (vertices g1 (10 * ASSOCIATIVITY + 0)) = Key 10 OUT 5 \<and>
           (\<forall>g'. (build_step ex_cfg)\<^sup>*\<^sup>* g1 g' \<longrightarrow>
                 insert_key ex_cfg 2 (Key 10 OUT 5) g' = Inl AssertionFailed)"
    by (rule insert_key_fresh_then_duplicate[OF ex_cfg_ok])
       (simp_all add: ex_cfg_simps ex_g0_eq vertex_empty_def ikey_empty_def ASSOCIATIVITY_def)
  then obtain g1 where
    "insert_key ex_cfg 2 (Key 10 OUT 5) ex_g0 = Inr (10 * ASSOCIATIVITY + 0, g1)"
    "key (vertices g1 (10 * ASSOCIATIVITY + 0)) = Key 10 OUT 5"
    "insert_key ex_cfg 2 (Key 10 OUT 5) g1 = Inl AssertionFailed"
    by blast
  then show ?thesis by (auto simp: ASSOCIATIVITY_def)
qed

section \<open>Remote and local lookups\<close>

lemma walk_chain_remote:
  "walk_chain cfg vs k fuel b = map_sum id found_or_empty (walk_remote cfg vs k fuel b)"
  by (induction fuel arbitrary: b)
     (auto simp: Let_def found_or_empty_def split: sum.splits option.splits)

lemma find_key_key: "find_key cfg vs k js = Inr (Some v) \<Longrightarrow> key v = k"
  by (induction js) (auto split: if_splits)

lemma walk_remote_key: "walk_remote cfg vs k fuel b = Inr (Some v) \<Longrightarrow> key v = k"
  by (induction fuel arbitrary: b)
     (auto simp: Let_def split: sum.splits option.splits if_splits dest: find_key_key)

lemma walk_remote_fuel:
  "walk_remote cfg vs k f1 b = Inr r1 \<Longrightarrow> walk_remote cfg vs k f2 b = Inr r2 \<Longrightarrow> r1 = r2"
proof (induction f1 arbitrary: f2 b)
  case 0
  then show ?case by simp
next
  case (Suc f1)
  from Suc.prems(2) obtain f2' where f2: "f2 = Suc f2'" by (cases f2) auto
  from Suc.prems show ?case unfolding f2
    by (auto simp: Let_def split: sum.splits option.splits if_splits dest: Suc.IH)
qed

lemma cache_reachable_ok: "cache_reachable cfg cluster items \<Longrightarrow> cache_ok cfg cluster items"
proof (induction rule: cache_reachable.induct)
  case cache_fresh
  show ?case by (simp add: cache_ok_def cache_init_def)
next
  case (cache_used items fuel k v items')
  show ?case
  proof (cases "items' = items")
    case True
    with cache_used.IH show ?thesis by simp
  next
    case False
    with cache_used.hyps(2)
    have w: "walk_remote cfg (vertices (cluster (hash_mod cfg (vid k) (global_num_servers cfg))))
               k fuel (hash cfg k mod num_buckets cfg) = Inr (Some v)"
      and i: "items' = cache_insert cfg items v"
      by (auto simp: get_vertex_remote_def Let_def split: if_splits option.splits sum.splits)
    from walk_remote_key[OF w] have kv: "key v = k" .
    from cache_used.IH w kv show ?thesis
      unfolding cache_ok_def i cache_insert_def by auto
  qed
qed


lemma get_vertex_remote_local:
  assumes ok: "cache_ok cfg cluster items"
    and loc: "get_vertex_local cfg fuel (cluster (hash_mod cfg (vid k) (global_num_servers cfg))) k = Inr x"
  shows "\<exists>x' items'. get_vertex_remote cfg fuel cluster items k = Inr (x', items') \<and>
           (x' = x \<or> (key x' = ikey_empty \<and> key x = ikey_empty))"
proof -
  define vs where "vs = vertices (cluster (hash_mod cfg (vid k) (global_num_servers cfg)))"
  define b where "b = hash cfg k mod num_buckets cfg"
  from loc have nb: "num_buckets cfg \<noteq> 0" and wc: "walk_chain cfg vs k fuel b = Inr x"
    by (auto simp: get_vertex_local_def vs_def b_def split: if_splits)
  from wc obtain r where wr: "walk_remote cfg vs k fuel b = Inr r" and x: "x = found_or_empty r"
    unfolding walk_chain_remote by (cases "walk_remote cfg vs k fuel b") auto
  show ?thesis
  proof (cases "cache_lookup cfg items k")
    case None
    with nb wr x show ?thesis
      by (cases r) (auto simp: get_vertex_remote_def Let_def vs_def b_def found_or_empty_def)
  next
    case (Some c)
    then have c: "c = items (hash cfg k mod NUM_ITEMS)" "key c = k"
      by (auto simp: cache_lookup_def Let_def split: if_splits)
    from Some nb have res: "get_vertex_remote cfg fuel cluster items k = Inr (c, items)"
      by (simp add: get_vertex_remote_def Let_def)
    from ok c(1) have "c = vertex_empty \<or>
        (\<exists>f. walk_remote cfg (vertices (cluster (hash_mod cfg (vid (key c)) (global_num_servers cfg))))
               (key c) f (hash cfg (key c) mod num_buckets cfg) = Inr (Some c))"
      unfolding cache_ok_def by blast
    then show ?thesis
    proof
      assume e: "c = vertex_empty"
      with c(2) have k: "k = ikey_empty" by (simp add: vertex_empty_def)
      have "key x = ikey_empty"
      proof (cases r)
        case None
        with x show ?thesis by (simp add: found_or_empty_def vertex_empty_def)
      next
        case (Some v)
        with wr walk_remote_key[of cfg vs k fuel b v] x k show ?thesis
          by (simp add: found_or_empty_def)
      qed
      with res e show ?thesis by (simp add: vertex_empty_def)
    next
      assume "\<exists>f. walk_remote cfg (vertices (cluster (hash_mod cfg (vid (key c)) (global_num_servers cfg))))
               (key c) f (hash cfg (key c) mod num_buckets cfg) = Inr (Some c)"
      then obtain f where "walk_remote cfg vs k f b = Inr (Some c)"
        unfolding c(2) vs_def b_def by blast
      from walk_remote_fuel[OF this wr] x have "x = c" by (auto simp: found_or_empty_def)
      with res show ?thesis by simp
    qed
  qed
qed

text \<open>
  C3 (remote lookup equals local lookup): over a cluster of built stores, with any cache the
  reader can hold and with caching on or off, whenever the local lookup of
  \<open>(vid, d, pid)\<close> on the owning server returns, the remote lookup on the calling server
  returns the same size and the same sequence of edge values, and leaves a cache the reader
  can hold. \<open>get_edges_global\<close> takes the local path exactly when
  \<open>hash_mod(vid, num_servers)\<close> is the calling server's id, and the remote path
  otherwise.
\<close>

theorem remote_lookup_equals_local:
  assumes "cache_reachable cfg cluster items"
    and "get_edges_local cfg fuel (cluster (hash_mod cfg v (global_num_servers cfg))) v d p = Inr r"
  shows "(\<exists>r' items'. get_edges_remote cfg fuel cluster items v d p = Inr (r', items') \<and>
            fst r' = fst r \<and>
            edge_slice (cluster (sid cfg)) r' =
              edge_slice (cluster (hash_mod cfg v (global_num_servers cfg))) r \<and>
            cache_reachable cfg cluster items') \<and>
         get_edges_global cfg fuel cluster items v d p =
           (if hash_mod cfg v (global_num_servers cfg) = sid cfg
            then map_sum id (\<lambda>r. (r, items)) (get_edges_local cfg fuel (cluster (sid cfg)) v d p)
            else get_edges_remote cfg fuel cluster items v d p)"
proof -
  define dst where "dst = hash_mod cfg v (global_num_servers cfg)"
  from assms(2) obtain x where
    loc: "get_vertex_local cfg fuel (cluster dst) (Key v d p) = Inr x" and
    r: "r = (if key x = ikey_empty then (0, NULL) else (ptr_size (ptr x), EdgesAt (ptr_off (ptr x))))"
    by (auto simp: get_edges_local_def dst_def split: sum.splits if_splits)
  from get_vertex_remote_local[OF cache_reachable_ok[OF assms(1)], of fuel "Key v d p" x] loc
  obtain x' items' where
    rem: "get_vertex_remote cfg fuel cluster items (Key v d p) = Inr (x', items')" and
    xx: "x' = x \<or> (key x' = ikey_empty \<and> key x = ikey_empty)"
    by (auto simp: dst_def)
  from assms(1) rem have cr: "cache_reachable cfg cluster items'" by (rule cache_used)
  have "\<exists>r'. get_edges_remote cfg fuel cluster items v d p = Inr (r', items') \<and>
            fst r' = fst r \<and> edge_slice (cluster (sid cfg)) r' = edge_slice (cluster dst) r"
    using rem xx r by (auto simp: get_edges_remote_def Let_def dst_def)
  moreover have "get_edges_global cfg fuel cluster items v d p =
           (if dst = sid cfg
            then map_sum id (\<lambda>r. (r, items)) (get_edges_local cfg fuel (cluster (sid cfg)) v d p)
            else get_edges_remote cfg fuel cluster items v d p)"
    by (auto simp: get_edges_global_def dst_def split: sum.splits)
  ultimately show ?thesis using cr unfolding dst_def by blast
qed

lemma two_cfg_simps:
  "num_slots two_cfg = 1000000" "num_buckets two_cfg = 100000" "hash two_cfg = vid"
  "hash_mod two_cfg = (\<lambda>v n. v mod n)" "global_num_servers two_cfg = 2" "sid two_cfg = 1"
  "global_enable_caching two_cfg"
  by (simp_all add: two_cfg_def ex_cfg_def ex_ext_def)

theorem remote_lookup_equals_local_witness:
  "cache_reachable two_cfg ex_cluster cache_init \<and>
   get_edges_local two_cfg 2 (ex_cluster (hash_mod two_cfg 2 (global_num_servers two_cfg))) 2 OUT 9
     = Inr (1, EdgesAt 0) \<and>
   (\<exists>r' items'. get_edges_remote two_cfg 2 ex_cluster cache_init 2 OUT 9 = Inr (r', items') \<and>
      fst r' = 1 \<and> edge_slice (ex_cluster 1) r' = [4])"
proof -
  have l: "get_edges_local two_cfg 2 (ex_cluster (hash_mod two_cfg 2 (global_num_servers two_cfg))) 2 OUT 9
     = Inr (1, EdgesAt 0)"
    by (simp add: get_edges_local_def get_vertex_local_def two_cfg_simps ex_cluster_def
        ex_server0_def walk_chain_numeral data_slots_eval ASSOCIATIVITY_def vertex_empty_def
        ikey_empty_def)
  have s: "edge_slice (ex_cluster (hash_mod two_cfg 2 (global_num_servers two_cfg))) (1, EdgesAt 0) = [4]"
    by (simp add: two_cfg_simps ex_cluster_def ex_server0_def)
  have c: "cache_reachable two_cfg ex_cluster cache_init" by (rule cache_fresh)
  from remote_lookup_equals_local[of two_cfg ex_cluster cache_init 2 2 OUT 9 "(1, EdgesAt 0)", OF c l] s l c
  show ?thesis by (auto simp: two_cfg_simps)
qed


end
